theory Spec2Isabelle
  imports Complex_Main
begin

section \<open>Strings\<close>

text \<open>
  A Python string is a sequence of code points. The model keeps the code points below 256
  (Latin-1), one \<open>char\<close> each: the degree sign is \<open>CHR 0xB0\<close> and the micro sign is
  \<open>CHR 0xB5\<close>, the two non-ASCII characters the source names.
\<close>

definition is_space :: "char \<Rightarrow> bool" where
  \<comment> \<open>\<open>str.isspace\<close>, which is also what \<open>\s\<close> matches and what \<open>str.strip()\<close> removes\<close>
  "is_space c = (c \<in> set [CHR 0x09, CHR 0x0A, CHR 0x0B, CHR 0x0C, CHR 0x0D, CHR 0x1C, CHR 0x1D,
      CHR 0x1E, CHR 0x1F, CHR '' '', CHR 0x85, CHR 0xA0])"

definition is_digit :: "char \<Rightarrow> bool" where
  "is_digit c = (c \<in> set ''0123456789'')"

definition upper_chars :: string where
  "upper_chars = ''ABCDEFGHIJKLMNOPQRSTUVWXYZ'' @
     [CHR 0xC0, CHR 0xC1, CHR 0xC2, CHR 0xC3, CHR 0xC4, CHR 0xC5, CHR 0xC6, CHR 0xC7,
      CHR 0xC8, CHR 0xC9, CHR 0xCA, CHR 0xCB, CHR 0xCC, CHR 0xCD, CHR 0xCE, CHR 0xCF,
      CHR 0xD0, CHR 0xD1, CHR 0xD2, CHR 0xD3, CHR 0xD4, CHR 0xD5, CHR 0xD6,
      CHR 0xD8, CHR 0xD9, CHR 0xDA, CHR 0xDB, CHR 0xDC, CHR 0xDD, CHR 0xDE]"

definition lower_chars :: string where
  "lower_chars = ''abcdefghijklmnopqrstuvwxyz'' @
     [CHR 0xE0, CHR 0xE1, CHR 0xE2, CHR 0xE3, CHR 0xE4, CHR 0xE5, CHR 0xE6, CHR 0xE7,
      CHR 0xE8, CHR 0xE9, CHR 0xEA, CHR 0xEB, CHR 0xEC, CHR 0xED, CHR 0xEE, CHR 0xEF,
      CHR 0xF0, CHR 0xF1, CHR 0xF2, CHR 0xF3, CHR 0xF4, CHR 0xF5, CHR 0xF6,
      CHR 0xF8, CHR 0xF9, CHR 0xFA, CHR 0xFB, CHR 0xFC, CHR 0xFD, CHR 0xFE]"

definition py_lower_char :: "char \<Rightarrow> char" where
  "py_lower_char c = (case map_of (zip upper_chars lower_chars) c of Some d \<Rightarrow> d | None \<Rightarrow> c)"

definition py_lower :: "string \<Rightarrow> string" where
  \<comment> \<open>\<open>s.lower()\<close>\<close>
  "py_lower s = map py_lower_char s"

definition py_strip :: "string \<Rightarrow> string" where
  \<comment> \<open>\<open>s.strip()\<close>\<close>
  "py_strip s = rev (dropWhile is_space (rev (dropWhile is_space s)))"

definition py_replace_char :: "char \<Rightarrow> string \<Rightarrow> string \<Rightarrow> string" where
  \<comment> \<open>\<open>s.replace(old, new)\<close> for a one-character \<open>old\<close>\<close>
  "py_replace_char old new s = concat (map (\<lambda>c. if c = old then new else [c]) s)"

definition endswith :: "string \<Rightarrow> string \<Rightarrow> bool" where
  \<comment> \<open>\<open>s.endswith(suf)\<close>\<close>
  "endswith s suf = (length suf \<le> length s \<and> drop (length s - length suf) s = suf)"

section \<open>Floats and cells\<close>

text \<open>
  A Python float is an IEEE 754 binary64 number: a finite double, an infinity or NaN. The
  finite doubles are the real numbers \<open>m * 2 ^ k\<close> with a mantissa \<open>m\<close> of at most 53 bits
  and \<open>k\<close> from \<open>-1074\<close> up, of magnitude at most \<open>max_double\<close>. An operation returns the
  exact result rounded to the nearest double, ties to the even mantissa, and an infinity
  when the rounded result is beyond \<open>max_double\<close>. The two zeros are one value of the model
  (Python holds them equal).
\<close>

definition max_double :: real where
  \<comment> \<open>\<open>sys.float_info.max\<close>\<close>
  "max_double = (2 ^ 53 - 1) * 2 ^ 971"

function expo_up :: "real \<Rightarrow> int \<Rightarrow> int" where
  "expo_up x e = (if 2 \<le> x \<and> e < 1024 then expo_up (x / 2) (e + 1) else e)"
  by auto
termination by (relation "measure (\<lambda>(x, e). nat (1024 - e))") auto

function expo_down :: "real \<Rightarrow> int \<Rightarrow> int" where
  "expo_down x e = (if x < 1 \<and> - 1022 < e then expo_down (x * 2) (e - 1) else e)"
  by auto
termination by (relation "measure (\<lambda>(x, e). nat (e + 1022))") auto

declare expo_up.simps [simp del] expo_down.simps [simp del]

definition expo :: "real \<Rightarrow> int" where
  \<comment> \<open>the binary exponent: \<open>2 ^ e \<le> \<bar>r\<bar> < 2 ^ (e + 1)\<close>, and \<open>-1022\<close> for the subnormal numbers\<close>
  "expo r = (if 1 \<le> \<bar>r\<bar> then expo_up \<bar>r\<bar> 0 else expo_down \<bar>r\<bar> 0)"

definition ulp :: "real \<Rightarrow> real" where
  \<comment> \<open>the distance between neighbouring doubles at \<open>r\<close>\<close>
  "ulp r = 2 powi (expo r - 52)"

definition round_even :: "real \<Rightarrow> int" where
  \<comment> \<open>the nearest integer, a tie going to the even one\<close>
  "round_even x = (let f = \<lfloor>x\<rfloor>; d = x - of_int f in
     if d < 1 / 2 then f else if 1 / 2 < d then f + 1 else if even f then f else f + 1)"

definition rne :: "real \<Rightarrow> real" where
  \<comment> \<open>round to nearest, ties to even\<close>
  "rne r = sgn r * of_int (round_even (\<bar>r\<bar> / ulp r)) * ulp r"

definition is_double :: "real \<Rightarrow> bool" where
  "is_double r = (rne r = r \<and> \<bar>r\<bar> \<le> max_double)"

typedef double = "{r. is_double r}"
  morphisms to_real Abs_double
  by (rule exI [of _ 0]) (simp add: is_double_def rne_def max_double_def)

instantiation double :: equal
begin

definition equal_double :: "double \<Rightarrow> double \<Rightarrow> bool" where
  "equal_double x y = (to_real x = to_real y)"

instance
  by standard (simp add: equal_double_def to_real_inject)

end

datatype pyfloat = Fin double | PInf | NInf | NaN

definition dbl :: "real \<Rightarrow> double" where
  \<comment> \<open>the double of a decimal literal of the source\<close>
  "dbl r = Abs_double (rne r)"

definition round64 :: "real \<Rightarrow> pyfloat" where
  \<comment> \<open>the float that an operation with the exact result \<open>r\<close> returns\<close>
  "round64 r = (if max_double < \<bar>rne r\<bar> then (if 0 < r then PInf else NInf) else Fin (dbl r))"

text \<open>The source's arithmetic always has a float literal as its right operand.\<close>

fun fadd_c :: "pyfloat \<Rightarrow> double \<Rightarrow> pyfloat" where
  "fadd_c (Fin x) c = round64 (to_real x + to_real c)"
| "fadd_c PInf c = PInf"
| "fadd_c NInf c = NInf"
| "fadd_c NaN c = NaN"

fun fsub_c :: "pyfloat \<Rightarrow> double \<Rightarrow> pyfloat" where
  "fsub_c (Fin x) c = round64 (to_real x - to_real c)"
| "fsub_c PInf c = PInf"
| "fsub_c NInf c = NInf"
| "fsub_c NaN c = NaN"

fun fmul_c :: "pyfloat \<Rightarrow> double \<Rightarrow> pyfloat" where
  "fmul_c (Fin x) c = round64 (to_real x * to_real c)"
| "fmul_c PInf c = (if 0 < to_real c then PInf else if to_real c < 0 then NInf else NaN)"
| "fmul_c NInf c = (if 0 < to_real c then NInf else if to_real c < 0 then PInf else NaN)"
| "fmul_c NaN c = NaN"

fun fdiv_c :: "pyfloat \<Rightarrow> double \<Rightarrow> pyfloat" where
  \<comment> \<open>the source divides by the literals 9.0 and 100.0 only; Python raises on a zero divisor,
      which the model maps to NaN\<close>
  "fdiv_c v c = (if to_real c = 0 then NaN else
     (case v of Fin x \<Rightarrow> round64 (to_real x / to_real c)
      | PInf \<Rightarrow> (if 0 < to_real c then PInf else NInf)
      | NInf \<Rightarrow> (if 0 < to_real c then NInf else PInf)
      | NaN \<Rightarrow> NaN))"

text \<open>
  A cell of a data frame: \<open>pd.NA\<close>, \<open>None\<close>, a string or a float. The float NaN is the
  missing marker of numeric columns.
\<close>
datatype cell = NA | PyNone | Str string | Flt pyfloat

fun isna :: "cell \<Rightarrow> bool" where
  \<comment> \<open>\<open>pd.isna\<close> on a scalar\<close>
  "isna NA = True"
| "isna PyNone = True"
| "isna (Flt NaN) = True"
| "isna (Flt _) = False"
| "isna (Str _) = False"

text \<open>
  Three library functions are parameters of the model: Python's \<open>float(s)\<close> on a string
  (\<open>None\<close> is the ValueError), the parse that \<open>pd.to_numeric\<close> applies to one string
  (\<open>None\<close> is its failure), and Python's \<open>str(x)\<close> of a finite float.
\<close>

record pylib =
  py_float :: "string \<Rightarrow> pyfloat option"
  pd_num :: "string \<Rightarrow> pyfloat option"
  py_repr :: "double \<Rightarrow> string"

fun py_str :: "pylib \<Rightarrow> cell \<Rightarrow> string" where
  \<comment> \<open>\<open>str(x)\<close>\<close>
  "py_str L (Str s) = s"
| "py_str L NA = ''<NA>''"
| "py_str L PyNone = ''None''"
| "py_str L (Flt NaN) = ''nan''"
| "py_str L (Flt PInf) = ''inf''"
| "py_str L (Flt NInf) = ''-inf''"
| "py_str L (Flt (Fin x)) = py_repr L x"

fun to_float :: "pylib \<Rightarrow> cell \<Rightarrow> pyfloat option" where
  \<comment> \<open>\<open>float(x)\<close>; \<open>None\<close> is the TypeError or ValueError the source catches\<close>
  "to_float L (Flt f) = Some f"
| "to_float L (Str s) = py_float L s"
| "to_float L NA = None"
| "to_float L PyNone = None"

fun num_parse :: "pylib \<Rightarrow> cell \<Rightarrow> pyfloat option" where
  \<comment> \<open>one element under \<open>pd.to_numeric\<close>; \<open>None\<close> is an element it cannot parse\<close>
  "num_parse L (Flt f) = Some f"
| "num_parse L (Str s) = pd_num L s"
| "num_parse L NA = Some NaN"
| "num_parse L PyNone = Some NaN"

definition num_coerce :: "pylib \<Rightarrow> cell \<Rightarrow> cell" where
  \<comment> \<open>one element under \<open>pd.to_numeric(..., errors="coerce")\<close>\<close>
  "num_coerce L x = Flt (case num_parse L x of Some f \<Rightarrow> f | None \<Rightarrow> NaN)"

section \<open>The unit converter on one row\<close>

definition norm_unit :: "string \<Rightarrow> string" where
  \<comment> \<open>strip, degree sign to "deg", micro sign to "u", lower case\<close>
  "norm_unit s = py_lower (py_replace_char (CHR 0xB5) ''u''
                   (py_replace_char (CHR 0xB0) ''deg'' (py_strip s)))"

definition length_units :: "(string \<times> double) list" where
  "length_units = [(''mm'', dbl (1 / 1000)), (''cm'', dbl (1 / 100)), (''m'', dbl 1),
     (''km'', dbl 1000)]"

definition mass_units :: "(string \<times> double) list" where
  "mass_units = [(''mg'', dbl (1 / 1000000)), (''g'', dbl (1 / 1000)), (''kg'', dbl 1),
     (''t'', dbl 1000)]"

definition time_units :: "(string \<times> double) list" where
  "time_units = [(''ms'', dbl (1 / 1000)), (''s'', dbl 1), (''min'', dbl 60), (''h'', dbl 3600)]"

definition pressure_units :: "(string \<times> double) list" where
  "pressure_units = [(''pa'', dbl 1), (''kpa'', dbl 1000), (''mpa'', dbl 1000000),
     (''bar'', dbl 100000), (''mbar'', dbl 100), (''atm'', dbl 101325), (''psi'', dbl 6894.757)]"

definition force_units :: "(string \<times> double) list" where
  "force_units = [(''n'', dbl 1), (''kn'', dbl 1000)]"

definition energy_units :: "(string \<times> double) list" where
  "energy_units = [(''j'', dbl 1), (''kj'', dbl 1000)]"

definition convert_one :: "pylib \<Rightarrow> cell \<Rightarrow> cell \<Rightarrow> cell \<times> cell" where
  "convert_one L val unit =
    (if isna val \<or> isna unit then (val, unit)
     else case to_float L val of
       None \<Rightarrow> (val, unit)
     | Some v \<Rightarrow>
        (let u = norm_unit (py_str L unit) in
         if u \<in> set [''degc'', ''c''] then (Flt (fadd_c v (dbl 273.15)), Str ''K'')
         else if u \<in> set [''degf'', ''f'']
           then (Flt (fadd_c (fdiv_c (fmul_c (fsub_c v (dbl 32)) (dbl 5)) (dbl 9)) (dbl 273.15)),
                 Str ''K'')
         else if u \<in> set [''k'', ''degk''] then (Flt v, Str ''K'')
         else case map_of length_units u of Some k \<Rightarrow> (Flt (fmul_c v k), Str ''m'') | None \<Rightarrow>
         (case map_of mass_units u of Some k \<Rightarrow> (Flt (fmul_c v k), Str ''kg'') | None \<Rightarrow>
         (case map_of time_units u of Some k \<Rightarrow> (Flt (fmul_c v k), Str ''s'') | None \<Rightarrow>
         (case map_of pressure_units u of Some k \<Rightarrow> (Flt (fmul_c v k), Str ''Pa'') | None \<Rightarrow>
         (case map_of force_units u of Some k \<Rightarrow> (Flt (fmul_c v k), Str ''N'') | None \<Rightarrow>
         (case map_of energy_units u of Some k \<Rightarrow> (Flt (fmul_c v k), Str ''J'') | None \<Rightarrow>
         if u \<in> set [''%'', ''pct''] then (Flt (fdiv_c v (dbl 100)), Str ''1'')
         else (val, unit))))))))"

text \<open>The tokens of the fixed category tables, and the canonical units.\<close>

definition known_units :: "string list" where
  "known_units = [''degc'', ''c'', ''degf'', ''f'', ''k'', ''degk''] @ map fst length_units
     @ map fst mass_units @ map fst time_units @ map fst pressure_units @ map fst force_units
     @ map fst energy_units @ [''%'', ''pct'']"

definition canonical_units :: "string list" where
  "canonical_units = [''K'', ''m'', ''kg'', ''s'', ''Pa'', ''N'', ''J'', ''1'']"

section \<open>Tables\<close>

text \<open>
  A data frame is an ordered list of named columns; a column has a dtype and its cells by
  row position. The dtypes are object and float64: the model has one numeric dtype, and a
  column of whole numbers, which pandas types int64, is held as a float64 column of the
  doubles of these numbers. Row labels are not modelled: rows are addressed by position,
  as they are when the labels are unique.
\<close>

datatype dtype = Object | Float64

record column =
  cname :: string
  cdtype :: dtype
  cells :: "cell list"

type_synonym table = "column list"

definition nrows :: "table \<Rightarrow> nat" where
  "nrows df = (case df of [] \<Rightarrow> 0 | c # _ \<Rightarrow> length (cells c))"

definition wf_table :: "table \<Rightarrow> bool" where
  \<comment> \<open>the data model's invariant: unique column names, columns aligned by row\<close>
  "wf_table df = (distinct (map cname df) \<and> list_all (\<lambda>c. length (cells c) = nrows df) df)"

definition has_col :: "table \<Rightarrow> string \<Rightarrow> bool" where
  \<comment> \<open>\<open>n in df.columns\<close>\<close>
  "has_col df n = (n \<in> set (map cname df))"

definition col_cells :: "table \<Rightarrow> string \<Rightarrow> cell list" where
  \<comment> \<open>the cells of \<open>df[n]\<close>\<close>
  "col_cells df n = (case find (\<lambda>c. cname c = n) df of Some c \<Rightarrow> cells c | None \<Rightarrow> [])"

definition set_col :: "string \<Rightarrow> (column \<Rightarrow> column) \<Rightarrow> table \<Rightarrow> table" where
  \<comment> \<open>\<open>df[n] = f(df[n])\<close> for a column that exists\<close>
  "set_col n f df = map (\<lambda>c. if cname c = n then f c else c) df"

section \<open>convert\_units\_to\_SI\<close>

definition is_flt :: "cell \<Rightarrow> bool" where
  "is_flt x = (case x of Flt _ \<Rightarrow> True | _ \<Rightarrow> False)"

definition at_set :: "nat \<Rightarrow> cell \<Rightarrow> column \<Rightarrow> column" where
  \<comment> \<open>one column under \<open>df.at[idx, col] = x\<close>: a non-float written into a numeric column
      makes it an object column\<close>
  "at_set i x c = c\<lparr>cdtype := (if is_flt x then cdtype c else Object), cells := (cells c)[i := x]\<rparr>"

definition set_at :: "nat \<Rightarrow> string \<Rightarrow> cell \<Rightarrow> table \<Rightarrow> table" where
  \<comment> \<open>\<open>df.at[idx, col] = x\<close>\<close>
  "set_at i n x df = set_col n (at_set i x) df"

definition iterrows :: "table \<Rightarrow> string \<Rightarrow> string \<Rightarrow> (nat \<times> cell \<times> cell) list" where
  \<comment> \<open>\<open>df[[col, unit_col]].iterrows()\<close>: the rows of a copy of the two columns\<close>
  "iterrows df col unit_col =
     zip [0..<nrows df] (zip (col_cells df col) (col_cells df unit_col))"

fun convert_rows :: "pylib \<Rightarrow> string \<Rightarrow> string \<Rightarrow> (nat \<times> cell \<times> cell) list \<Rightarrow> table \<Rightarrow> table" where
  "convert_rows L col unit_col [] df = df"
| "convert_rows L col unit_col ((idx, val, unit) # rows) df =
     (let (new_val, new_unit) = convert_one L val unit;
          df1 = set_at idx col new_val df;
          df2 = set_at idx unit_col new_unit df1
      in convert_rows L col unit_col rows df2)"

definition to_numeric_coerce :: "pylib \<Rightarrow> column \<Rightarrow> column" where
  \<comment> \<open>\<open>pd.to_numeric(series, errors="coerce")\<close>\<close>
  "to_numeric_coerce L c = c\<lparr>cdtype := Float64, cells := map (num_coerce L) (cells c)\<rparr>"

definition unit_name :: "string \<Rightarrow> string" where
  \<comment> \<open>\<open>col[:-6] + "_unit"\<close>\<close>
  "unit_name col = take (length col - 6) col @ ''_unit''"

definition convert_pair :: "pylib \<Rightarrow> string \<Rightarrow> table \<Rightarrow> table" where
  \<comment> \<open>the body of the loop over the column names\<close>
  "convert_pair L col df =
     (if endswith col ''_value'' then
        (let unit_col = unit_name col in
         if has_col df unit_col then
           set_col col (to_numeric_coerce L)
             (convert_rows L col unit_col (iterrows df col unit_col) df)
         else df)
      else df)"

definition convert_units_to_SI :: "pylib \<Rightarrow> table \<Rightarrow> table" where
  "convert_units_to_SI L df = fold (convert_pair L) (map cname df) df"

text \<open>
  The columns the converter writes: a column named \<open>b_value\<close> beside a column named
  \<open>b_unit\<close>, and the results of the row conversion on such a pair.
\<close>

definition value_name :: "string \<Rightarrow> string" where
  "value_name u = take (length u - 5) u @ ''_value''"

definition is_value_col :: "table \<Rightarrow> string \<Rightarrow> bool" where
  "is_value_col df col = (endswith col ''_value'' \<and> has_col df col \<and> has_col df (unit_name col))"

definition is_unit_col :: "table \<Rightarrow> string \<Rightarrow> bool" where
  "is_unit_col df u = (endswith u ''_unit'' \<and> has_col df u \<and> has_col df (value_name u))"

definition pair_results :: "pylib \<Rightarrow> table \<Rightarrow> string \<Rightarrow> (cell \<times> cell) list" where
  "pair_results L df col =
     map (\<lambda>(v, u). convert_one L v u) (zip (col_cells df col) (col_cells df (unit_name col)))"

definition write_all ::
  "(cell \<times> cell \<Rightarrow> cell) \<Rightarrow> pylib \<Rightarrow> (nat \<times> cell \<times> cell) list \<Rightarrow> column \<Rightarrow> column" where
  \<comment> \<open>what the loop over the rows writes into one column\<close>
  "write_all sel L rows c = fold (\<lambda>(i, v, u). at_set i (sel (convert_one L v u))) rows c"

definition pair_col :: "pylib \<Rightarrow> table \<Rightarrow> string \<Rightarrow> column \<Rightarrow> column" where
  "pair_col L df col c =
     (if cname c = col
        then to_numeric_coerce L (write_all fst L (iterrows df col (unit_name col)) c)
      else if cname c = unit_name col
        then write_all snd L (iterrows df col (unit_name col)) c
      else c)"

definition conv_cells :: "pylib \<Rightarrow> table \<Rightarrow> string set \<Rightarrow> string \<Rightarrow> cell list" where
  "conv_cells L df S m =
    (if m \<in> S \<and> is_value_col df m then map (\<lambda>r. num_coerce L (fst r)) (pair_results L df m)
     else if is_unit_col df m \<and> value_name m \<in> S then map snd (pair_results L df (value_name m))
     else col_cells df m)"

definition numeric_values :: "table \<Rightarrow> bool" where
  "numeric_values df = (\<forall>col. is_value_col df col \<longrightarrow> list_all is_flt (col_cells df col))"

section \<open>normalize\_missing\_values and remove\_empty\_rows\_and\_columns\<close>

text \<open>
  \<open>df.replace(pattern, pd.NA, regex=True)\<close> tests every string cell of the object columns
  with \<open>re.search\<close> and puts \<open>pd.NA\<close> where the pattern is found. The patterns are all
  anchored with \<open>^\<close> and \<open>$\<close>; \<open>$\<close> also matches before a newline that ends the string.
  After the replacement pandas infers the dtype of every object column again
  (\<open>Block.convert\<close>): a column that holds floats and \<open>None\<close> only, with a float among them,
  comes back as a float64 column in which \<open>None\<close> is NaN; a column that holds a string or
  \<open>pd.NA\<close>, or nothing but \<open>None\<close>, stays as it is.
\<close>

definition re_blank :: "string \<Rightarrow> bool" where
  \<comment> \<open>\<open>^\s*$\<close>\<close>
  "re_blank s = list_all is_space s"

definition re_literal :: "bool \<Rightarrow> string \<Rightarrow> string \<Rightarrow> bool" where
  \<comment> \<open>\<open>^lit$\<close>, under \<open>(?i)\<close> when the flag is set; \<open>lit\<close> is in lower case\<close>
  "re_literal ci lit s = (let t = (if ci then py_lower s else s)
                          in t = lit \<or> t = lit @ [CHR 0x0A])"

definition missing_patterns :: "(string \<Rightarrow> bool) list" where
  "missing_patterns = [re_blank, re_literal True ''na'', re_literal True ''n/a'',
     re_literal True ''null'', re_literal True ''none'', re_literal False ''?'',
     re_literal False ''-'', re_literal False ''.'']"

definition replace_cell :: "(string \<Rightarrow> bool) \<Rightarrow> cell \<Rightarrow> cell" where
  "replace_cell p x = (case x of Str s \<Rightarrow> if p s then NA else Str s | _ \<Rightarrow> x)"

definition convertible :: "cell list \<Rightarrow> bool" where
  \<comment> \<open>floats and \<open>None\<close> only, with a float among them\<close>
  "convertible xs = (list_all (\<lambda>x. is_flt x \<or> x = PyNone) xs \<and> list_ex is_flt xs)"

definition convert_object :: "column \<Rightarrow> column" where
  \<comment> \<open>\<open>Block.convert\<close> on one column\<close>
  "convert_object c =
     (if cdtype c = Object \<and> convertible (cells c)
      then c\<lparr>cdtype := Float64, cells := map (\<lambda>x. if x = PyNone then Flt NaN else x) (cells c)\<rparr>
      else c)"

definition replace_column :: "(string \<Rightarrow> bool) \<Rightarrow> column \<Rightarrow> column" where
  \<comment> \<open>one column under \<open>df.replace(pattern, pd.NA, regex=True)\<close>\<close>
  "replace_column p c =
     (if cdtype c = Object then convert_object (c\<lparr>cells := map (replace_cell p) (cells c)\<rparr>)
      else c)"

definition replace_regex :: "(string \<Rightarrow> bool) \<Rightarrow> table \<Rightarrow> table" where
  "replace_regex p df = map (replace_column p) df"

definition normalize_missing_values :: "table \<Rightarrow> table" where
  "normalize_missing_values df = fold replace_regex missing_patterns df"

definition sentinel_words :: "string list" where
  "sentinel_words = [''na'', ''n/a'', ''null'', ''none'', ''?'', ''-'', ''.'']"


definition is_sentinel :: "string \<Rightarrow> bool" where
  \<comment> \<open>blank, or one of the sentinel words in any letter case, a final newline aside\<close>
  "is_sentinel s = (list_all is_space s \<or>
     (\<exists>w \<in> set sentinel_words. py_lower s = w \<or> py_lower s = w @ [CHR 0x0A]))"

definition tag_cell :: "cell \<Rightarrow> cell" where
  "tag_cell x = (case x of Str s \<Rightarrow> if is_sentinel s then NA else Str s | _ \<Rightarrow> x)"

definition tag_column :: "column \<Rightarrow> column" where
  "tag_column c =
     (if cdtype c = Object then convert_object (c\<lparr>cells := map tag_cell (cells c)\<rparr>) else c)"

definition loc_filter :: "bool list \<Rightarrow> bool list \<Rightarrow> table \<Rightarrow> table" where
  \<comment> \<open>\<open>df.loc[~row_mask, ~col_mask]\<close>\<close>
  "loc_filter row_mask col_mask df =
     map (\<lambda>c. c\<lparr>cells := map snd (filter (\<lambda>(m, x). \<not> m) (zip row_mask (cells c)))\<rparr>)
       (map snd (filter (\<lambda>(m, c). \<not> m) (zip col_mask df)))"

definition empty_row_mask :: "table \<Rightarrow> bool list" where
  \<comment> \<open>\<open>df.isna().all(axis=1)\<close>\<close>
  "empty_row_mask df = map (\<lambda>i. list_all (\<lambda>c. isna (cells c ! i)) df) [0..<nrows df]"

definition empty_col_mask :: "table \<Rightarrow> bool list" where
  \<comment> \<open>\<open>df.isna().all(axis=0)\<close>\<close>
  "empty_col_mask df = map (\<lambda>c. list_all isna (cells c)) df"

definition remove_empty_rows_and_columns :: "table \<Rightarrow> table" where
  \<comment> \<open>the two printed counts are not part of the result\<close>
  "remove_empty_rows_and_columns df =
     (let df_clean = replace_regex re_blank df
      in loc_filter (empty_row_mask df_clean) (empty_col_mask df_clean) df_clean)"

section \<open>strip\_whitespace and fix\_decimal\_commas\<close>

text \<open>
  The data model's tables have unique column names, and the stages are modelled on such
  tables. strip\_whitespace can itself bring two names together: its loop then reads
  \<open>df_clean[col].dtype\<close> on a label that names two columns, the selection is a frame,
  which has no \<open>dtype\<close>, and the stage raises an AttributeError. In fix\_decimal\_commas
  the \<open>.str\<close> accessor raises an AttributeError on an object column whose cells that are
  not missing are all numbers.
\<close>

datatype py_error = AttributeError

fun for_cols ::
  "(string \<Rightarrow> table \<Rightarrow> py_error + table) \<Rightarrow> string list \<Rightarrow> table \<Rightarrow> py_error + table" where
  "for_cols body [] df = Inr df"
| "for_cols body (col # cols) df =
     (case body col df of Inl e \<Rightarrow> Inl e | Inr df' \<Rightarrow> for_cols body cols df')"

definition unique_label :: "table \<Rightarrow> string \<Rightarrow> bool" where
  "unique_label df col = (length (filter (\<lambda>c. cname c = col) df) = 1)"

definition col_dtype :: "table \<Rightarrow> string \<Rightarrow> dtype" where
  "col_dtype df n = (case find (\<lambda>c. cname c = n) df of Some c \<Rightarrow> cdtype c | None \<Rightarrow> Object)"

definition astype_str_strip :: "pylib \<Rightarrow> column \<Rightarrow> column" where
  \<comment> \<open>\<open>series.astype(str).str.strip()\<close>\<close>
  "astype_str_strip L c =
     c\<lparr>cdtype := Object, cells := map (\<lambda>x. Str (py_strip (py_str L x))) (cells c)\<rparr>"

definition strip_body :: "pylib \<Rightarrow> string \<Rightarrow> table \<Rightarrow> py_error + table" where
  "strip_body L col df =
     (if \<not> unique_label df col then Inl AttributeError
      else if col_dtype df col = Object then Inr (set_col col (astype_str_strip L) df)
      else Inr df)"

definition strip_names :: "table \<Rightarrow> table" where
  \<comment> \<open>\<open>df.columns = df.columns.str.strip()\<close>\<close>
  "strip_names df = map (\<lambda>c. c\<lparr>cname := py_strip (cname c)\<rparr>) df"

definition strip_whitespace :: "pylib \<Rightarrow> table \<Rightarrow> py_error + table" where
  "strip_whitespace L df =
     (let df_clean = strip_names df
      in for_cols (strip_body L) (map cname df_clean) df_clean)"

definition strip_column :: "pylib \<Rightarrow> column \<Rightarrow> column" where
  "strip_column L c = (if cdtype c = Object then astype_str_strip L c else c)"

fun fix_from :: "char option \<Rightarrow> string \<Rightarrow> string" where
  \<comment> \<open>\<open>re.sub(r"(?<=\d),(?=\d)", ".", s)\<close>, with the character before the rest of the
      string as first argument\<close>
  "fix_from p [] = []"
| "fix_from p (c # cs) =
     (if c = CHR '','' \<and> (case p of Some d \<Rightarrow> is_digit d | None \<Rightarrow> False)
         \<and> (case cs of n # _ \<Rightarrow> is_digit n | [] \<Rightarrow> False)
      then CHR ''.'' else c) # fix_from (Some c) cs"

definition fix_commas :: "string \<Rightarrow> string" where
  "fix_commas s = fix_from None s"

definition is_str :: "cell \<Rightarrow> bool" where
  "is_str x = (case x of Str _ \<Rightarrow> True | _ \<Rightarrow> False)"

definition str_accessor_ok :: "cell list \<Rightarrow> bool" where
  \<comment> \<open>\<open>.str\<close> accepts an object column that holds a string, or nothing but missing cells\<close>
  "str_accessor_ok xs = (list_ex is_str xs \<or> list_all isna xs)"

definition repair_cell :: "cell \<Rightarrow> cell" where
  \<comment> \<open>one element under \<open>.str.replace\<close>: a missing cell stays, any other cell that is not a
      string becomes NaN\<close>
  "repair_cell x = (case x of Str s \<Rightarrow> Str (fix_commas s)
                    | _ \<Rightarrow> if isna x then x else Flt NaN)"

definition str_replace_commas :: "column \<Rightarrow> column" where
  \<comment> \<open>\<open>series.str.replace(r"(?<=\d),(?=\d)", ".", regex=True)\<close>\<close>
  "str_replace_commas c = c\<lparr>cdtype := Object, cells := map repair_cell (cells c)\<rparr>"

definition to_numeric_ignore :: "pylib \<Rightarrow> column \<Rightarrow> column" where
  \<comment> \<open>\<open>pd.to_numeric(series, errors="ignore")\<close>: the numbers when every element parses,
      the series as it is otherwise\<close>
  "to_numeric_ignore L c =
     (if list_all (\<lambda>x. num_parse L x \<noteq> None) (cells c)
      then c\<lparr>cdtype := Float64, cells := map (num_coerce L) (cells c)\<rparr>
      else c)"

definition fix_body :: "pylib \<Rightarrow> string \<Rightarrow> table \<Rightarrow> py_error + table" where
  "fix_body L col df =
     (if col_dtype df col = Object then
        (if str_accessor_ok (col_cells df col)
         then Inr (set_col col (\<lambda>c. to_numeric_ignore L (str_replace_commas c)) df)
         else Inl AttributeError)
      else Inr df)"

definition fix_decimal_commas :: "pylib \<Rightarrow> table \<Rightarrow> py_error + table" where
  "fix_decimal_commas L df = for_cols (fix_body L) (map cname df) df"

definition fix_column :: "pylib \<Rightarrow> column \<Rightarrow> column" where
  "fix_column L c = (if cdtype c = Object then to_numeric_ignore L (str_replace_commas c) else c)"

definition text_cells :: "cell list \<Rightarrow> bool" where
  \<comment> \<open>the cells of a text column: strings and missing markers\<close>
  "text_cells xs = list_all (\<lambda>x. is_str x \<or> isna x) xs"

definition text_table :: "table \<Rightarrow> bool" where
  "text_table df = list_all (\<lambda>c. cdtype c = Object \<longrightarrow> text_cells (cells c)) df"

definition flanked :: "string \<Rightarrow> nat \<Rightarrow> bool" where
  \<comment> \<open>position \<open>i\<close> holds a comma with a digit right before it and a digit right after it\<close>
  "flanked s i = (s ! i = CHR '','' \<and> 0 < i \<and> is_digit (s ! (i - 1))
                  \<and> Suc i < length s \<and> is_digit (s ! Suc i))"

section \<open>extract\_numeric\_and\_unit\<close>

definition is_unit_char :: "char \<Rightarrow> bool" where
  \<comment> \<open>the class of the letters A to Z and a to z, the micro sign, the degree sign and \<open>%\<close>\<close>
  "is_unit_char c = (c \<in> set (''ABCDEFGHIJKLMNOPQRSTUVWXYZabcdefghijklmnopqrstuvwxyz''
                               @ [CHR 0xB5, CHR 0xB0, CHR ''%'']))"

definition match_pattern :: "string \<Rightarrow> (string \<times> string) option" where
  \<comment> \<open>the two groups of the pattern: whitespace, digits with an optional point or comma
      and further digits (group 1), whitespace, unit characters (group 2), whitespace. The
      classes that follow one another are disjoint, so the greedy reading is the only one\<close>
  "match_pattern s =
    (let r0 = dropWhile is_space s;
         d1 = takeWhile is_digit r0;
         r1 = dropWhile is_digit r0;
         sep = (case r1 of [] \<Rightarrow> [] | c # r \<Rightarrow> if c = CHR ''.'' \<or> c = CHR '','' then [c] else []);
         r2 = drop (length sep) r1;
         d2 = takeWhile is_digit r2;
         r3 = dropWhile is_digit r2;
         r4 = dropWhile is_space r3;
         u = takeWhile is_unit_char r4;
         r5 = dropWhile is_unit_char r4
     in if d1 \<noteq> [] \<and> u \<noteq> [] \<and> list_all is_space r5 then Some (d1 @ sep @ d2, u) else None)"

definition extract_cell :: "pylib \<Rightarrow> cell \<Rightarrow> (string \<times> string) option" where
  \<comment> \<open>one row of \<open>series.astype(str).str.extract(pattern)\<close>\<close>
  "extract_cell L x = match_pattern (py_str L x)"

definition value_cell :: "pylib \<Rightarrow> (string \<times> string) option \<Rightarrow> cell" where
  \<comment> \<open>comma to point, then \<open>pd.to_numeric(..., errors="coerce")\<close>\<close>
  "value_cell L m = (case m of None \<Rightarrow> Flt NaN
                     | Some (n, u) \<Rightarrow> num_coerce L (Str (py_replace_char (CHR '','') ''.'' n)))"

definition unit_cell :: "(string \<times> string) option \<Rightarrow> cell" where
  "unit_cell m = (case m of None \<Rightarrow> Flt NaN | Some (n, u) \<Rightarrow> Str u)"

definition assign_col :: "string \<Rightarrow> dtype \<Rightarrow> cell list \<Rightarrow> table \<Rightarrow> table" where
  \<comment> \<open>\<open>df[n] = series\<close>: the column of that name is overwritten where it stands, a new name is
      appended\<close>
  "assign_col n d xs df =
     (if has_col df n then set_col n (\<lambda>c. c\<lparr>cdtype := d, cells := xs\<rparr>) df
      else df @ [\<lparr>cname = n, cdtype = d, cells = xs\<rparr>])"

definition select_cols :: "table \<Rightarrow> string list \<Rightarrow> table" where
  \<comment> \<open>\<open>df[names]\<close>\<close>
  "select_cols df names = concat (map (\<lambda>n. filter (\<lambda>c. cname c = n) df) names)"

definition extract_step :: "pylib \<Rightarrow> string \<Rightarrow> table \<times> string list \<Rightarrow> table \<times> string list" where
  \<comment> \<open>the body of the loop, on \<open>df_clean\<close> and \<open>new_columns_order\<close>\<close>
  "extract_step L col st =
     (let (df_clean, new_columns_order) = st;
          extracted = map (extract_cell L) (col_cells df_clean col) in
      if col_dtype df_clean col = Object \<and> list_ex (\<lambda>m. m \<noteq> None) extracted then
        (let num_col = col @ ''_value'';
             unit_col = col @ ''_unit'';
             df1 = assign_col num_col Float64 (map (value_cell L) extracted) df_clean;
             df2 = assign_col unit_col Object (map unit_cell extracted) df1
         in (df2, new_columns_order @ [num_col, unit_col]))
      else (df_clean, new_columns_order @ [col]))"

definition extract_numeric_and_unit :: "pylib \<Rightarrow> table \<Rightarrow> table" where
  "extract_numeric_and_unit L df =
     (let (df_clean, new_columns_order) = fold (extract_step L) (map cname df) (df, [])
      in select_cols df_clean new_columns_order)"

text \<open>What the extractor makes of one column when no name collides.\<close>

definition promoted :: "pylib \<Rightarrow> column \<Rightarrow> bool" where
  "promoted L c = (cdtype c = Object \<and> list_ex (\<lambda>x. extract_cell L x \<noteq> None) (cells c))"

definition extract_column :: "pylib \<Rightarrow> column \<Rightarrow> column list" where
  "extract_column L c =
     (if promoted L c then
        [\<lparr>cname = cname c @ ''_value'', cdtype = Float64,
          cells = map (\<lambda>x. value_cell L (extract_cell L x)) (cells c)\<rparr>,
         \<lparr>cname = cname c @ ''_unit'', cdtype = Object,
          cells = map (\<lambda>x. unit_cell (extract_cell L x)) (cells c)\<rparr>]
      else [c])"

definition no_clash :: "pylib \<Rightarrow> table \<Rightarrow> bool" where
  \<comment> \<open>no column already bears the name of a column that the extractor makes\<close>
  "no_clash L df = list_all (\<lambda>c. promoted L c \<longrightarrow>
       \<not> has_col df (cname c @ ''_value'') \<and> \<not> has_col df (cname c @ ''_unit'')) df"

definition new_cols :: "pylib \<Rightarrow> column list \<Rightarrow> column list" where
  "new_cols L cs = concat (map (\<lambda>c. if promoted L c then extract_column L c else []) cs)"

definition order_of :: "pylib \<Rightarrow> column list \<Rightarrow> string list" where
  "order_of L cs = concat (map (\<lambda>c. map cname (extract_column L c)) cs)"

definition regex_groups :: "string \<Rightarrow> string \<Rightarrow> string \<Rightarrow> bool" where
  \<comment> \<open>the string is in the language of the pattern, with these two groups\<close>
  "regex_groups s g u =
     (\<exists>sp1 d1 sep d2 sp2 sp3.
        s = sp1 @ d1 @ sep @ d2 @ sp2 @ u @ sp3 \<and> g = d1 @ sep @ d2 \<and>
        list_all is_space sp1 \<and> d1 \<noteq> [] \<and> list_all is_digit d1 \<and>
        (sep = [] \<or> sep = ''.'' \<or> sep = '','') \<and> list_all is_digit d2 \<and>
        list_all is_space sp2 \<and> u \<noteq> [] \<and> list_all is_unit_char u \<and> list_all is_space sp3)"

section \<open>The stages on a store of data frames\<close>

text \<open>
  Data frames are objects: a store lists them by address. \<open>df.copy()\<close> (a deep copy) and
  every operation that returns a frame (\<open>replace\<close>, \<open>loc\<close>, the selection of a list of
  columns) allocate a new object; an assignment to \<open>df.columns\<close>, to \<open>df[col]\<close> or to
  \<open>df.at[idx, col]\<close> changes the object it names, where it stands. Each stage takes the
  address of its argument and returns the address of its result.
\<close>

type_synonym store = "table list"

definition df_new :: "store \<Rightarrow> table \<Rightarrow> store \<times> nat" where
  "df_new h t = (h @ [t], length h)"

definition df_copy :: "store \<Rightarrow> nat \<Rightarrow> store \<times> nat" where
  "df_copy h r = df_new h (h ! r)"

definition df_mutate :: "store \<Rightarrow> nat \<Rightarrow> (table \<Rightarrow> table) \<Rightarrow> store" where
  "df_mutate h r f = h[r := f (h ! r)]"

fun for_cols_st ::
  "(string \<Rightarrow> table \<Rightarrow> py_error + table) \<Rightarrow> string list \<Rightarrow> store \<Rightarrow> nat
     \<Rightarrow> store \<times> py_error option" where
  "for_cols_st body [] h r = (h, None)"
| "for_cols_st body (col # cols) h r =
     (case body col (h ! r) of
        Inl e \<Rightarrow> (h, Some e)
      | Inr t \<Rightarrow> for_cols_st body cols (df_mutate h r (\<lambda>_. t)) r)"

definition remove_empty_rows_and_columns_st :: "store \<Rightarrow> nat \<Rightarrow> store \<times> nat" where
  "remove_empty_rows_and_columns_st h df =
     (let (h1, df_clean) = df_copy h df;
          (h2, df_clean) = df_new h1 (replace_regex re_blank (h1 ! df_clean));
          row_mask = empty_row_mask (h2 ! df_clean);
          col_mask = empty_col_mask (h2 ! df_clean)
      in df_new h2 (loc_filter row_mask col_mask (h2 ! df_clean)))"

definition strip_whitespace_st :: "pylib \<Rightarrow> store \<Rightarrow> nat \<Rightarrow> store \<times> (py_error + nat)" where
  "strip_whitespace_st L h df =
     (let (h1, df_clean) = df_copy h df;
          h2 = df_mutate h1 df_clean strip_names;
          (h3, err) = for_cols_st (strip_body L) (map cname (h2 ! df_clean)) h2 df_clean
      in (h3, case err of None \<Rightarrow> Inr df_clean | Some e \<Rightarrow> Inl e))"

definition normalize_missing_values_st :: "store \<Rightarrow> nat \<Rightarrow> store \<times> nat" where
  "normalize_missing_values_st h df =
     fold (\<lambda>p (h1, df_clean). df_new h1 (replace_regex p (h1 ! df_clean)))
       missing_patterns (df_copy h df)"

definition fix_decimal_commas_st :: "pylib \<Rightarrow> store \<Rightarrow> nat \<Rightarrow> store \<times> (py_error + nat)" where
  "fix_decimal_commas_st L h df =
     (let (h1, df_clean) = df_copy h df;
          (h2, err) = for_cols_st (fix_body L) (map cname (h1 ! df_clean)) h1 df_clean
      in (h2, case err of None \<Rightarrow> Inr df_clean | Some e \<Rightarrow> Inl e))"

definition extract_step_st ::
  "pylib \<Rightarrow> string \<Rightarrow> nat \<Rightarrow> store \<times> string list \<Rightarrow> store \<times> string list" where
  \<comment> \<open>the body of the extractor's loop: both assignments go into the frame \<open>df_clean\<close>\<close>
  "extract_step_st L col df_clean st =
     (let (h, new_columns_order) = st;
          extracted = map (extract_cell L) (col_cells (h ! df_clean) col) in
      if col_dtype (h ! df_clean) col = Object \<and> list_ex (\<lambda>m. m \<noteq> None) extracted then
        (let num_col = col @ ''_value'';
             unit_col = col @ ''_unit'';
             h1 = df_mutate h df_clean
                    (assign_col num_col Float64 (map (value_cell L) extracted));
             h2 = df_mutate h1 df_clean (assign_col unit_col Object (map unit_cell extracted))
         in (h2, new_columns_order @ [num_col, unit_col]))
      else (h, new_columns_order @ [col]))"

definition extract_numeric_and_unit_st :: "pylib \<Rightarrow> store \<Rightarrow> nat \<Rightarrow> store \<times> nat" where
  "extract_numeric_and_unit_st L h df =
     (let (h1, df_clean) = df_copy h df;
          (h2, new_columns_order) =
             fold (\<lambda>col. extract_step_st L col df_clean) (map cname (h1 ! df_clean)) (h1, [])
      in df_new h2 (select_cols (h2 ! df_clean) new_columns_order))"

fun convert_rows_st ::
  "pylib \<Rightarrow> string \<Rightarrow> string \<Rightarrow> (nat \<times> cell \<times> cell) list \<Rightarrow> store \<Rightarrow> nat \<Rightarrow> store" where
  \<comment> \<open>the loop over the rows: both writes of a row go into the frame \<open>df_clean\<close>\<close>
  "convert_rows_st L col unit_col [] h df_clean = h"
| "convert_rows_st L col unit_col ((idx, val, unit) # rows) h df_clean =
     (let (new_val, new_unit) = convert_one L val unit;
          h1 = df_mutate h df_clean (set_at idx col new_val);
          h2 = df_mutate h1 df_clean (set_at idx unit_col new_unit)
      in convert_rows_st L col unit_col rows h2 df_clean)"

definition convert_pair_st :: "pylib \<Rightarrow> string \<Rightarrow> store \<Rightarrow> nat \<Rightarrow> store" where
  "convert_pair_st L col h df_clean =
     (if endswith col ''_value'' then
        (let unit_col = unit_name col in
         if has_col (h ! df_clean) unit_col then
           (let rows = iterrows (h ! df_clean) col unit_col;
                h1 = convert_rows_st L col unit_col rows h df_clean
            in df_mutate h1 df_clean (set_col col (to_numeric_coerce L)))
         else h)
      else h)"

definition convert_units_to_SI_st :: "pylib \<Rightarrow> store \<Rightarrow> nat \<Rightarrow> store \<times> nat" where
  "convert_units_to_SI_st L h df =
     (let (h1, df_clean) = df_copy h df;
          cols = map cname (h1 ! df_clean);
          h2 = fold (\<lambda>col h'. convert_pair_st L col h' df_clean) cols h1
      in (h2, df_clean))"

definition frame_of :: "store \<Rightarrow> store \<Rightarrow> bool" where
  \<comment> \<open>every object of the first store is in the second, unchanged\<close>
  "frame_of h h' = (length h \<le> length h' \<and> (\<forall>a < length h. h' ! a = h ! a))"

definition fresh_result :: "store \<Rightarrow> store \<times> nat \<Rightarrow> table \<Rightarrow> bool" where
  \<comment> \<open>the store keeps every object it had, and the result is a new object with this content\<close>
  "fresh_result h res t =
     (case res of (h', r) \<Rightarrow> frame_of h h' \<and> length h \<le> r \<and> r < length h' \<and> h' ! r = t)"

definition fresh_result_or_error ::
  "store \<Rightarrow> store \<times> (py_error + nat) \<Rightarrow> py_error + table \<Rightarrow> bool" where
  "fresh_result_or_error h res out =
     (case res of
        (h', Inr r) \<Rightarrow> frame_of h h' \<and> length h \<le> r \<and> r < length h' \<and> out = Inr (h' ! r)
      | (h', Inl e) \<Rightarrow> frame_of h h' \<and> out = Inl e)"

fun for_cols_trace ::
  "(string \<Rightarrow> table \<Rightarrow> py_error + table) \<Rightarrow> string list \<Rightarrow> table \<Rightarrow> table \<times> py_error option" where
  \<comment> \<open>the frame that a loop leaves behind, and the error that stopped it\<close>
  "for_cols_trace body [] t = (t, None)"
| "for_cols_trace body (col # cols) t =
     (case body col t of Inl e \<Rightarrow> (t, Some e) | Inr t' \<Rightarrow> for_cols_trace body cols t')"

section \<open>A library instance for the examples\<close>

text \<open>
  A library instance for evaluating examples: both parsers read plain decimal numerals
  (an optional sign, digits, an optional point and fraction digits) and reject every other
  string; on these numerals and on strings without a digit Python's \<open>float\<close> and pandas'
  \<open>to_numeric\<close> agree with it. The rendering of a finite float is the one of an
  integer-valued float (\<open>5.0\<close>).
\<close>

definition nat_of_digits :: "string \<Rightarrow> nat" where
  "nat_of_digits s = foldl (\<lambda>a c. 10 * a + (of_char c - 48)) 0 s"

definition parse_decimal :: "string \<Rightarrow> pyfloat option" where
  "parse_decimal s =
    (let (neg, t) = (case s of [] \<Rightarrow> (False, [])
                     | c # r \<Rightarrow> if c = CHR ''-'' then (True, r)
                                else if c = CHR ''+'' then (False, r) else (False, s));
         ip = takeWhile is_digit t;
         r1 = dropWhile is_digit t;
         (fp, ok) = (case r1 of [] \<Rightarrow> ([], True)
                     | c # r \<Rightarrow> if c = CHR ''.'' \<and> list_all is_digit r then (r, True)
                                else ([], False))
     in if \<not> ok \<or> (ip = [] \<and> fp = []) then None
        else Some (round64 ((if neg then - 1 else 1) * real (nat_of_digits (ip @ fp))
                            / 10 ^ length fp)))"

fun digits_of_nat :: "nat \<Rightarrow> nat \<Rightarrow> string" where
  \<comment> \<open>the decimal digits of a number, with fuel\<close>
  "digits_of_nat 0 n = ''''"
| "digits_of_nat (Suc k) n =
     (if n < 10 then [char_of (48 + n)] else digits_of_nat k (n div 10) @ [char_of (48 + n mod 10)])"

definition repr_integral :: "double \<Rightarrow> string" where
  "repr_integral x = (if to_real x < 0 then ''-'' else '''')
     @ digits_of_nat 400 (nat \<lfloor>\<bar>to_real x\<bar>\<rfloor>) @ ''.0''"

definition ref_lib :: pylib where
  "ref_lib = \<lparr>py_float = parse_decimal, pd_num = parse_decimal, py_repr = repr_integral\<rparr>"

section \<open>Example tables\<close>

definition temperature_table :: table where
  "temperature_table =
     [\<lparr>cname = ''t_value'', cdtype = Float64,
        cells = [Flt (Fin (dbl 0)), Flt (Fin (dbl 32)), Flt (Fin (dbl 100)),
                 Flt (Fin (dbl (- 40))), Flt (Fin (dbl 212))]\<rparr>,
      \<lparr>cname = ''t_unit'', cdtype = Object,
        cells = [Str ''C'', Str ''F'', Str [CHR 0xB0, CHR ''C''], Str ''F'', Str ''degF'']\<rparr>]"

definition unknown_unit_table :: table where
  "unknown_unit_table =
     [\<lparr>cname = ''d_value'', cdtype = Object, cells = [Str ''abc'', Str ''7'']\<rparr>,
      \<lparr>cname = ''d_unit'', cdtype = Object, cells = [Str ''lightyear'', Str ''lightyear'']\<rparr>]"

definition unparseable_table :: table where
  "unparseable_table =
     [\<lparr>cname = ''w_value'', cdtype = Object, cells = [Str ''abc'']\<rparr>,
      \<lparr>cname = ''w_unit'', cdtype = Object, cells = [Str ''mm'']\<rparr>]"

definition kelvin_table :: table where
  "kelvin_table =
     [\<lparr>cname = ''t_value'', cdtype = Float64, cells = [Flt (Fin (dbl 100))]\<rparr>,
      \<lparr>cname = ''t_unit'', cdtype = Object, cells = [Str ''K'']\<rparr>]"

definition lightyear_table :: table where
  "lightyear_table =
     [\<lparr>cname = ''d_value'', cdtype = Float64, cells = [Flt (Fin (dbl 5))]\<rparr>,
      \<lparr>cname = ''d_unit'', cdtype = Object, cells = [Str ''lightyear'']\<rparr>]"

definition mixed_table :: table where
  "mixed_table =
     [\<lparr>cname = ''id'', cdtype = Object, cells = [Str ''a'']\<rparr>,
      \<lparr>cname = ''len_value'', cdtype = Float64, cells = [Flt (Fin (dbl 5))]\<rparr>,
      \<lparr>cname = ''len_unit'', cdtype = Object, cells = [Str ''km'']\<rparr>,
      \<lparr>cname = ''t_value'', cdtype = Float64, cells = [Flt (Fin (dbl 0))]\<rparr>,
      \<lparr>cname = ''t_unit'', cdtype = Object, cells = [Str ''C'']\<rparr>]"

definition padded_table :: table where
  "padded_table = [\<lparr>cname = ''a'', cdtype = Object, cells = [Str '' na '', Str ''banana'']\<rparr>]"

definition sentinel_table :: table where
  "sentinel_table = [\<lparr>cname = ''a'', cdtype = Object,
      cells = [Str ''NA'', Str ''N/a'', Str ''Null'', Str ''none'', Str ''?'', Str ''-'',
               Str ''.'', Str '' '', Str '''', Str ''banana'', Flt (Fin (dbl 1))]\<rparr>]"

definition numbers_table :: table where
  "numbers_table =
     [\<lparr>cname = ''x'', cdtype = Object, cells = [PyNone, Flt PInf]\<rparr>,
      \<lparr>cname = ''y'', cdtype = Object, cells = [PyNone, PyNone]\<rparr>,
      \<lparr>cname = ''z'', cdtype = Float64, cells = [Flt NaN, Flt (Fin (dbl 1))]\<rparr>]"

definition missing_table :: table where
  "missing_table =
     [\<lparr>cname = '' a '', cdtype = Object, cells = [Str '' x '', NA, Flt NaN, PyNone]\<rparr>,
      \<lparr>cname = ''n'', cdtype = Float64, cells = [Flt (Fin (dbl 1)), Flt NaN, Flt NaN, Flt NaN]\<rparr>]"

definition decimal_table :: table where
  "decimal_table =
     [\<lparr>cname = ''a'', cdtype = Object, cells = [Str ''1,25'', Str ''3'', Str ''0,5'', Str ''10'']\<rparr>,
      \<lparr>cname = ''b'', cdtype = Object, cells = [Str ''1,234'', Str ''a,b'', Str '',5'', NA]\<rparr>,
      \<lparr>cname = ''n'', cdtype = Float64,
        cells = [Flt (Fin (dbl 2)), Flt NaN, Flt (Fin (dbl 1)), Flt (Fin (dbl 1))]\<rparr>]"

definition mixed_decimal_table :: table where
  "mixed_decimal_table =
     [\<lparr>cname = ''a'', cdtype = Object, cells = [Str ''1,25'', Str ''abc'']\<rparr>]"

definition clash_table :: table where
  "clash_table =
     [\<lparr>cname = ''a'', cdtype = Object, cells = [Str ''1.5 mm'']\<rparr>,
      \<lparr>cname = ''a_value'', cdtype = Object, cells = [Str ''x'']\<rparr>]"

definition split_table :: table where
  "split_table =
     [\<lparr>cname = ''a'', cdtype = Object, cells = [Str ''12.5 mm'', NA, Str ''3,5kg'']\<rparr>,
      \<lparr>cname = ''b'', cdtype = Object, cells = [Str ''x'', Str ''y'', Str ''12'']\<rparr>,
      \<lparr>cname = ''n'', cdtype = Float64, cells = [Flt (Fin (dbl 1)), Flt (Fin (dbl 2)), Flt NaN]\<rparr>]"

definition store_example :: store where
  "store_example = [missing_table, decimal_table]"

section \<open>Rounding to a double\<close>

lemma expo_up_spec:
  assumes "1 \<le> x" and "e \<le> 1024"
  shows "e \<le> expo_up x e \<and> expo_up x e \<le> 1024 \<and> 2 powi (expo_up x e - e) \<le> x
       \<and> (expo_up x e < 1024 \<longrightarrow> x < 2 powi (expo_up x e - e + 1))"
  using assms
proof (induction x e rule: expo_up.induct)
  case (1 x e)
  show ?case
  proof (cases "2 \<le> x \<and> e < 1024")
    case True
    then have s: "expo_up x e = expo_up (x / 2) (e + 1)" by (subst expo_up.simps) simp
    have ih: "e + 1 \<le> expo_up (x / 2) (e + 1) \<and> expo_up (x / 2) (e + 1) \<le> 1024
       \<and> 2 powi (expo_up (x / 2) (e + 1) - (e + 1)) \<le> x / 2
       \<and> (expo_up (x / 2) (e + 1) < 1024 \<longrightarrow> x / 2 < 2 powi (expo_up (x / 2) (e + 1) - (e + 1) + 1))"
      using 1(1) True by simp
    have p: "2 powi (k + 1) = 2 * (2::real) powi k" for k
      by (simp add: power_int_add)
    show ?thesis
      using ih p [of "expo_up (x / 2) (e + 1) - (e + 1)"] p [of "expo_up (x / 2) (e + 1) - e"]
      by (simp add: s algebra_simps)
  next
    case False
    then have s: "expo_up x e = e" by (subst expo_up.simps) auto
    show ?thesis using False 1(2,3) by (auto simp add: s)
  qed
qed

lemma expo_down_spec:
  assumes "0 \<le> x" and "x < 2" and "- 1022 \<le> e"
  shows "- 1022 \<le> expo_down x e \<and> expo_down x e \<le> e
       \<and> x < 2 powi (expo_down x e - e + 1)
       \<and> (- 1022 < expo_down x e \<longrightarrow> 2 powi (expo_down x e - e) \<le> x)"
  using assms
proof (induction x e rule: expo_down.induct)
  case (1 x e)
  show ?case
  proof (cases "x < 1 \<and> - 1022 < e")
    case True
    then have s: "expo_down x e = expo_down (x * 2) (e - 1)" by (subst expo_down.simps) simp
    have ih: "- 1022 \<le> expo_down (x * 2) (e - 1) \<and> expo_down (x * 2) (e - 1) \<le> e - 1
       \<and> x * 2 < 2 powi (expo_down (x * 2) (e - 1) - (e - 1) + 1)
       \<and> (- 1022 < expo_down (x * 2) (e - 1)
            \<longrightarrow> 2 powi (expo_down (x * 2) (e - 1) - (e - 1)) \<le> x * 2)"
      using 1(1) True 1(2) by simp
    have p: "2 powi (k + 1) = 2 * (2::real) powi k" for k
      by (simp add: power_int_add)
    show ?thesis
      using ih p [of "expo_down (x * 2) (e - 1) - e + 1"] p [of "expo_down (x * 2) (e - 1) - e"]
      by (simp add: s algebra_simps)
  next
    case False
    then have s: "expo_down x e = e" by (subst expo_down.simps) auto
    show ?thesis using False 1(2,3,4) by (auto simp add: s)
  qed
qed

lemma expo_range: "- 1022 \<le> expo r" "expo r \<le> 1024"
  using expo_up_spec [of "\<bar>r\<bar>" 0] expo_down_spec [of "\<bar>r\<bar>" 0]
  by (auto simp add: expo_def)

lemma expo_upper:
  assumes "expo r < 1024"
  shows "\<bar>r\<bar> < 2 powi (expo r + 1)"
  using assms expo_up_spec [of "\<bar>r\<bar>" 0] expo_down_spec [of "\<bar>r\<bar>" 0]
  by (auto simp add: expo_def split: if_splits)

lemma expo_lower:
  assumes "- 1022 < expo r"
  shows "2 powi (expo r) \<le> \<bar>r\<bar>"
  using assms expo_up_spec [of "\<bar>r\<bar>" 0] expo_down_spec [of "\<bar>r\<bar>" 0]
  by (auto simp add: expo_def split: if_splits)

lemma pow2_less: "(2::real) powi a < 2 powi b \<longleftrightarrow> a < b"
proof
  assume l: "(2::real) powi a < 2 powi b"
  show "a < b"
  proof (rule ccontr)
    assume "\<not> a < b"
    then have "b \<le> a" by simp
    then have "(2::real) powi b \<le> 2 powi a" by (intro power_int_increasing) simp_all
    then show False using l by simp
  qed
next
  assume "a < b"
  then show "(2::real) powi a < 2 powi b" by (intro power_int_strict_increasing) simp_all
qed

lemma pow2_le: "(2::real) powi a \<le> 2 powi b \<longleftrightarrow> a \<le> b"
  using pow2_less [of b a] by (simp add: not_less [symmetric])

lemma expo_eq:
  assumes "2 powi e \<le> \<bar>r\<bar>" and "\<bar>r\<bar> < 2 powi (e + 1)" and "- 1022 \<le> e" and "e \<le> 1023"
  shows "expo r = e"
proof -
  have "expo r \<noteq> 1024"
  proof
    assume a: "expo r = 1024"
    then have "2 powi 1024 \<le> \<bar>r\<bar>" using expo_lower [of r] by simp
    then have "(2::real) powi 1024 < 2 powi (e + 1)" using assms(2) by simp
    then show False using assms(4) by (simp only: pow2_less)
  qed
  then have u: "\<bar>r\<bar> < 2 powi (expo r + 1)" using expo_upper [of r] expo_range(2) [of r] by simp
  then have "(2::real) powi e < 2 powi (expo r + 1)" using assms(1) by simp
  then have 1: "e \<le> expo r" by (simp only: pow2_less)
  have 2: "expo r \<le> e"
  proof (cases "- 1022 < expo r")
    case True
    then have "2 powi (expo r) \<le> \<bar>r\<bar>" by (rule expo_lower)
    then have "(2::real) powi (expo r) < 2 powi (e + 1)" using assms(2) by simp
    then show ?thesis by (simp only: pow2_less)
  next
    case False
    then show ?thesis using assms(3) by simp
  qed
  show ?thesis using 1 2 by simp
qed

lemma expo_subnormal:
  assumes "\<bar>r\<bar> < 2 powi (- 1022)"
  shows "expo r = - 1022"
proof (rule ccontr)
  assume "expo r \<noteq> - 1022"
  then have a: "- 1022 < expo r" using expo_range(1) [of r] by simp
  then have "2 powi (expo r) \<le> \<bar>r\<bar>" by (rule expo_lower)
  then have "(2::real) powi (expo r) < 2 powi (- 1022)" using assms by simp
  then show False using a by (simp only: pow2_less)
qed

lemma expo_minus [simp]: "expo (- r) = expo r"
  by (simp add: expo_def)

lemma ulp_pos [simp]: "0 < ulp r"
  by (simp add: ulp_def zero_less_power_int)

lemma round_even_int [simp]: "round_even (of_int n) = n"
  by (simp add: round_even_def)

lemma round_even_err: "\<bar>of_int (round_even x) - x\<bar> \<le> 1 / 2"
  unfolding round_even_def Let_def by (auto simp add: abs_if) linarith+

lemma round_even_near:
  assumes "\<bar>x - of_int n\<bar> < 1 / 2"
  shows "round_even x = n"
proof -
  have "\<bar>of_int (round_even x) - (of_int n :: real)\<bar> < 1"
    using assms round_even_err [of x] by linarith
  then have "\<bar>of_int (round_even x - n) :: real\<bar> < 1" by simp
  then have "\<bar>round_even x - n\<bar> < 1" by (simp only: of_int_abs [symmetric] of_int_less_1_iff)
  then show ?thesis by simp
qed

lemma round_even_le:
  assumes "x \<le> of_int n"
  shows "round_even x \<le> n"
proof -
  have "\<lfloor>x\<rfloor> \<le> n" using assms by (simp add: floor_le_iff) 
  moreover have "\<lfloor>x\<rfloor> = n \<Longrightarrow> x = of_int n" using assms by linarith
  ultimately show ?thesis
    unfolding round_even_def Let_def by (cases "\<lfloor>x\<rfloor> = n") auto
qed

lemma round_even_ge:
  assumes "of_int n \<le> x"
  shows "n \<le> round_even x"
proof -
  have "n \<le> \<lfloor>x\<rfloor>" using assms by (simp add: le_floor_iff)
  then show ?thesis unfolding round_even_def Let_def by auto
qed

lemma round_even_less:
  assumes "x < of_int n - 1 / 2"
  shows "round_even x < n"
proof -
  have "of_int (round_even x) < (of_int n :: real)"
    using assms round_even_err [of x] by linarith
  then show ?thesis by simp
qed

lemma ulp_neq0 [simp]: "ulp r \<noteq> 0"
  by (simp add: ulp_def)

lemma round_even_zero [simp]: "round_even 0 = 0"
  using round_even_int [of 0] by simp

lemma rne_zero [simp]: "rne 0 = 0"
  by (simp add: rne_def)

lemma rne_minus: "rne (- r) = - rne r"
  by (simp add: rne_def ulp_def sgn_minus)

lemma rne_abs: "\<bar>rne r\<bar> = of_int (round_even (\<bar>r\<bar> / ulp r)) * ulp r"
proof -
  have "0 \<le> round_even (\<bar>r\<bar> / ulp r)"
    by (rule round_even_ge) (simp add: less_imp_le)
  then show ?thesis
    by (cases "r = 0") (simp_all add: rne_def abs_mult abs_sgn_eq less_imp_le)
qed

lemma rne_err: "\<bar>rne r - r\<bar> \<le> ulp r / 2"
proof -
  let ?u = "ulp r"
  let ?m = "round_even (\<bar>r\<bar> / ?u)"
  have "\<bar>of_int ?m - \<bar>r\<bar> / ?u\<bar> \<le> 1 / 2" by (rule round_even_err)
  then have "\<bar>of_int ?m - \<bar>r\<bar> / ?u\<bar> * ?u \<le> 1 / 2 * ?u"
    by (intro mult_right_mono) (simp_all add: less_imp_le)
  then have "\<bar>(of_int ?m - \<bar>r\<bar> / ?u) * ?u\<bar> \<le> ?u / 2"
    by (simp add: abs_mult less_imp_le)
  then have a: "\<bar>of_int ?m * ?u - \<bar>r\<bar>\<bar> \<le> ?u / 2"
    by (simp add: algebra_simps)
  have "rne r - r = sgn r * (of_int ?m * ?u - \<bar>r\<bar>)"
    by (cases "r = 0"; cases "0 < r") (simp_all add: rne_def algebra_simps)
  then have "\<bar>rne r - r\<bar> = \<bar>sgn r\<bar> * \<bar>of_int ?m * ?u - \<bar>r\<bar>\<bar>"
    by (simp add: abs_mult)
  also have "\<dots> \<le> \<bar>of_int ?m * ?u - \<bar>r\<bar>\<bar>"
    by (cases "r = 0") (simp_all add: abs_sgn_eq)
  finally show ?thesis using a by simp
qed

text \<open>A number with a mantissa of at most 53 bits and an exponent in range is left alone.\<close>

lemma rne_fix:
  assumes r: "r = of_int m * 2 powi k" and m: "\<bar>m\<bar> < 2 ^ 53" and k: "- 1074 \<le> k"
  shows "rne r = r"
proof -
  let ?e = "expo r"
  have ar: "\<bar>r\<bar> = of_int \<bar>m\<bar> * 2 powi k"
    by (simp add: r abs_mult)
  have le: "?e - 52 \<le> k"
  proof (cases "- 1022 < ?e")
    case True
    then have "2 powi ?e \<le> \<bar>r\<bar>" by (rule expo_lower)
    moreover have "\<bar>r\<bar> < 2 ^ 53 * 2 powi k"
    proof -
      have "(of_int \<bar>m\<bar> :: real) < 2 ^ 53" using m by (simp only: of_int_less_numeral_power_cancel_iff)
      then show ?thesis unfolding ar by (intro mult_strict_right_mono) (simp_all add: zero_less_power_int)
    qed
    moreover have "(2::real) ^ 53 * 2 powi k = 2 powi (k + 53)"
      by (simp add: power_int_add)
    ultimately have "(2::real) powi ?e < 2 powi (k + 53)" by simp
    then show ?thesis by (simp only: pow2_less)
  next
    case False
    then show ?thesis using k by simp
  qed
  define d where "d = nat (k - (?e - 52))"
  have kd: "k = (?e - 52) + int d" using le by (simp add: d_def)
  have "(2::real) powi k = 2 powi (?e - 52) * 2 ^ d"
    by (subst kd) (simp add: power_int_add)
  then have q: "\<bar>r\<bar> / ulp r = of_int (\<bar>m\<bar> * 2 ^ d)"
    by (simp add: ar ulp_def)
  have "rne r = sgn r * (\<bar>r\<bar> / ulp r) * ulp r"
    unfolding rne_def q round_even_int ..
  also have "\<dots> = sgn r * \<bar>r\<bar>" using ulp_pos [of r] by simp
  finally show ?thesis by (simp add: sgn_mult_abs)
qed

text \<open>The result of rounding has a mantissa of at most 53 bits, unless the exponent is
  beyond the range.\<close>

lemma rne_repr:
  assumes "expo r < 1024"
  shows "\<exists>m k. rne r = of_int m * 2 powi k \<and> \<bar>m\<bar> < 2 ^ 53 \<and> - 1074 \<le> k"
proof -
  let ?e = "expo r"
  let ?M = "round_even (\<bar>r\<bar> / ulp r)"
  have "\<bar>r\<bar> < 2 powi (?e + 1)" using assms by (rule expo_upper)
  also have "\<dots> = 2 ^ 53 * ulp r" by (simp add: ulp_def power_int_diff power_int_add)
  finally have "\<bar>r\<bar> / ulp r < 2 ^ 53" by (simp add: pos_divide_less_eq)
  then have "\<bar>r\<bar> / ulp r \<le> of_int (2 ^ 53)" by simp
  then have M: "?M \<le> 2 ^ 53" by (rule round_even_le)
  have M0: "0 \<le> ?M" by (rule round_even_ge) (simp add: less_imp_le)
  obtain s :: int where s: "sgn r = of_int s" and sg: "\<bar>s\<bar> \<le> 1"
  proof (cases "r = 0"; cases "0 < r")
    assume "r = 0"
    then have "sgn r = of_int 0" "\<bar>0::int\<bar> \<le> 1" by simp_all
    then show ?thesis by (rule that)
  next
    assume "r \<noteq> 0" "0 < r"
    then have "sgn r = of_int 1" "\<bar>1::int\<bar> \<le> 1" by simp_all
    then show ?thesis by (rule that)
  next
    assume "r \<noteq> 0" "\<not> 0 < r"
    then have "sgn r = of_int (- 1)" "\<bar>- 1::int\<bar> \<le> 1" by simp_all
    then show ?thesis by (rule that)
  qed simp
  have f: "rne r = of_int (s * ?M) * 2 powi (?e - 52)"
    by (simp add: rne_def ulp_def s)
  show ?thesis
  proof (cases "?M = 2 ^ 53")
    case True
    have "rne r = of_int (s * 2 ^ 52) * 2 powi (?e - 51)"
    proof -
      have "(2::real) powi (?e - 51) = 2 * 2 powi (?e - 52)"
        using power_int_add [of "2::real" "?e - 52" 1] by (simp add: algebra_simps)
      then show ?thesis by (simp add: f True)
    qed
    moreover have "\<bar>s * 2 ^ 52\<bar> < 2 ^ 53" using sg by (simp add: abs_mult)
    moreover have "- 1074 \<le> ?e - 51" using expo_range(1) [of r] by simp
    ultimately show ?thesis by blast
  next
    case False
    then have "?M < 2 ^ 53" using M by simp
    moreover have "\<bar>s\<bar> * ?M \<le> 1 * ?M" using sg M0 by (intro mult_right_mono)
    ultimately have "\<bar>s * ?M\<bar> < 2 ^ 53" using M0 by (simp add: abs_mult)
    moreover have "- 1074 \<le> ?e - 52" using expo_range(1) [of r] by simp
    ultimately show ?thesis using f by blast
  qed
qed

lemma rne_large:
  assumes "expo r = 1024"
  shows "2 ^ 1024 \<le> \<bar>rne r\<bar>"
proof -
  have "2 powi 1024 \<le> \<bar>r\<bar>" using expo_lower [of r] assms by simp
  moreover have u: "ulp r = 2 ^ 972" by (simp add: ulp_def assms)
  ultimately have "of_int (2 ^ 52) \<le> \<bar>r\<bar> / ulp r" by (simp add: pos_le_divide_eq)
  then have "2 ^ 52 \<le> round_even (\<bar>r\<bar> / ulp r)" by (rule round_even_ge)
  then have "(2::real) ^ 52 \<le> of_int (round_even (\<bar>r\<bar> / ulp r))"
    by (simp only: numeral_power_le_of_int_cancel_iff)
  then have "(2::real) ^ 52 * 2 ^ 972 \<le> of_int (round_even (\<bar>r\<bar> / ulp r)) * 2 ^ 972"
    by (intro mult_right_mono) simp_all
  then show ?thesis by (simp add: rne_abs u)
qed

lemma rne_idem:
  assumes "\<bar>rne r\<bar> \<le> max_double"
  shows "rne (rne r) = rne r"
proof -
  have "expo r \<noteq> 1024"
  proof
    assume "expo r = 1024"
    then have "2 ^ 1024 \<le> \<bar>rne r\<bar>" by (rule rne_large)
    then show False using assms by (simp add: max_double_def)
  qed
  then have "expo r < 1024" using expo_range(2) [of r] by simp
  then obtain m k where "rne r = of_int m * 2 powi k" "\<bar>m\<bar> < 2 ^ 53" "- 1074 \<le> k"
    using rne_repr by blast
  then show ?thesis by (rule rne_fix)
qed

lemma rne_bound:
  assumes "\<bar>r\<bar> < 2 ^ 1024 - 2 ^ 970"
  shows "\<bar>rne r\<bar> \<le> max_double"
proof -
  let ?e = "expo r"
  have e: "?e \<le> 1023"
  proof (rule ccontr)
    assume "\<not> ?e \<le> 1023"
    then have "?e = 1024" using expo_range(2) [of r] by simp
    then have "2 powi 1024 \<le> \<bar>r\<bar>" using expo_lower [of r] by simp
    then show False using assms by simp
  qed
  show ?thesis
  proof (cases "?e = 1023")
    case True
    then have u: "ulp r = 2 ^ 971" by (simp add: ulp_def)
    have "\<bar>r\<bar> / ulp r < of_int (2 ^ 53) - 1 / 2"
      using assms by (simp add: u pos_divide_less_eq)
    then have "round_even (\<bar>r\<bar> / ulp r) < 2 ^ 53" by (rule round_even_less)
    then have "round_even (\<bar>r\<bar> / ulp r) \<le> 2 ^ 53 - 1" by simp
    then have "(of_int (round_even (\<bar>r\<bar> / ulp r)) :: real) \<le> of_int (2 ^ 53 - 1)"
      by (simp only: of_int_le_iff)
    then have "of_int (round_even (\<bar>r\<bar> / ulp r)) * (2::real) ^ 971 \<le> (2 ^ 53 - 1) * 2 ^ 971"
      by (intro mult_right_mono) simp_all
    then show ?thesis by (simp add: rne_abs u max_double_def)
  next
    case False
    then have e2: "?e \<le> 1022" using e by simp
    have "\<bar>r\<bar> < 2 powi (?e + 1)" using e by (intro expo_upper) simp
    also have "\<dots> = 2 ^ 53 * ulp r" by (simp add: ulp_def power_int_diff power_int_add)
    finally have "\<bar>r\<bar> / ulp r \<le> of_int (2 ^ 53)" by (simp add: pos_divide_less_eq less_imp_le)
    then have "round_even (\<bar>r\<bar> / ulp r) \<le> 2 ^ 53" by (rule round_even_le)
    then have "(of_int (round_even (\<bar>r\<bar> / ulp r)) :: real) \<le> 2 ^ 53"
      by (simp only: of_int_le_numeral_power_cancel_iff)
    then have "\<bar>rne r\<bar> \<le> 2 ^ 53 * ulp r"
      unfolding rne_abs by (intro mult_right_mono) (simp_all add: less_imp_le)
    also have "\<dots> = 2 powi (?e + 1)" by (simp add: ulp_def power_int_diff power_int_add)
    also have "\<dots> \<le> 2 powi 1023" using e2 by (simp only: pow2_le)
    also have "\<dots> \<le> max_double" by (simp add: max_double_def)
    finally show ?thesis .
  qed
qed

lemma rne_int:
  assumes "\<bar>n\<bar> < 2 ^ 53"
  shows "rne (of_int n) = of_int n"
  using rne_fix [of "of_int n" n 0] assms by simp

lemma rne_nearest:
  assumes "2 powi (k + 52) \<le> r" and "r < 2 powi (k + 53)" and "- 1074 \<le> k" and "k \<le> 971"
    and "\<bar>r / 2 powi k - of_int m\<bar> < 1 / 2"
  shows "rne r = of_int m * 2 powi k"
proof -
  have "0 < (2::real) powi (k + 52)" by (simp add: zero_less_power_int)
  then have p: "0 < r" using assms(1) by linarith
  have "expo r = k + 52"
    using assms(1-4) p by (intro expo_eq) (simp_all add: add.commute add.left_commute)
  then have u: "ulp r = 2 powi k" by (simp add: ulp_def)
  have "round_even (\<bar>r\<bar> / ulp r) = m" using assms(5) p by (intro round_even_near) (simp add: u)
  then show ?thesis using p by (simp add: rne_def u)
qed

lemma is_double_rne:
  assumes "\<bar>rne r\<bar> \<le> max_double"
  shows "is_double (rne r)"
  using assms by (simp add: is_double_def rne_idem)

lemma val_dbl:
  assumes "\<bar>rne r\<bar> \<le> max_double"
  shows "to_real (dbl r) = rne r"
  using is_double_rne [OF assms] by (simp add: dbl_def Abs_double_inverse)

lemma is_double_val [simp]: "is_double (to_real x)"
  using to_real [of x] by simp

lemma rne_val [simp]: "rne (to_real x) = to_real x"
  using is_double_val [of x] by (simp only: is_double_def)

lemma val_bound: "\<bar>to_real x\<bar> \<le> max_double"
  using is_double_val [of x] by (simp only: is_double_def)

lemma dbl_val [simp]: "dbl (to_real x) = x"
  by (simp add: dbl_def to_real_inverse)

lemma round64_val [simp]: "round64 (to_real x) = Fin x"
  using val_bound [of x] by (simp add: round64_def)

lemma val_dbl_exact:
  assumes "is_double r"
  shows "to_real (dbl r) = r"
  using assms by (simp add: dbl_def is_double_def Abs_double_inverse)

lemma dbl_rne:
  assumes "\<bar>rne r\<bar> \<le> max_double"
  shows "dbl (rne r) = dbl r"
  using assms by (simp add: dbl_def rne_idem)

lemma round64_fin:
  assumes "\<bar>r\<bar> < 2 ^ 1024 - 2 ^ 970"
  shows "round64 r = Fin (dbl r)"
  using rne_bound [OF assms] by (simp add: round64_def)

lemma is_double_iff:
  "is_double r \<longleftrightarrow>
     (\<exists>m k. r = of_int m * 2 powi k \<and> \<bar>m\<bar> < 2 ^ 53 \<and> - 1074 \<le> k) \<and> \<bar>r\<bar> \<le> max_double"
proof
  assume d: "is_double r"
  then have r: "rne r = r" and b: "\<bar>r\<bar> \<le> max_double" by (simp_all add: is_double_def)
  have "expo r \<noteq> 1024"
  proof
    assume "expo r = 1024"
    then have "2 ^ 1024 \<le> \<bar>rne r\<bar>" by (rule rne_large)
    then show False using b r by (simp add: max_double_def)
  qed
  then have "expo r < 1024" using expo_range(2) [of r] by simp
  then show "(\<exists>m k. r = of_int m * 2 powi k \<and> \<bar>m\<bar> < 2 ^ 53 \<and> - 1074 \<le> k) \<and> \<bar>r\<bar> \<le> max_double"
    using rne_repr [of r] r b by simp
next
  assume "(\<exists>m k. r = of_int m * 2 powi k \<and> \<bar>m\<bar> < 2 ^ 53 \<and> - 1074 \<le> k) \<and> \<bar>r\<bar> \<le> max_double"
  then show "is_double r" using rne_fix by (auto simp add: is_double_def)
qed
text \<open>Ties go to the even mantissa, and a result beyond the range is an infinity.\<close>

lemma round_even_ties:
  "round_even (1 / 2) = 0" "round_even (3 / 2) = 2" "round_even (5 / 2) = 2"
  "round_even (7 / 2) = 4"
  by (simp_all add: round_even_def)

lemma rne_ties:
  "rne (2 ^ 53 + 1) = 2 ^ 53" "rne (2 ^ 53 + 3) = 2 ^ 53 + 4"
proof -
  have e: "expo (2 ^ 53 + 1) = 53" "expo (2 ^ 53 + 3) = 53"
    by (rule expo_eq; simp)+
  show "rne (2 ^ 53 + 1) = 2 ^ 53" "rne (2 ^ 53 + 3) = 2 ^ 53 + 4"
    using e by (simp_all add: rne_def ulp_def round_even_def)
qed

lemma expo_overflow:
  assumes "2 ^ 1024 \<le> \<bar>r\<bar>"
  shows "expo r = 1024"
proof (rule ccontr)
  assume "expo r \<noteq> 1024"
  then have l: "expo r < 1024" using expo_range(2) [of r] by simp
  then have "\<bar>r\<bar> < 2 powi (expo r + 1)" by (rule expo_upper)
  also have "\<dots> \<le> 2 powi 1024" using l by (simp only: pow2_le)
  finally show False using assms by simp
qed

lemma round64_overflow:
  assumes "2 ^ 1024 \<le> \<bar>r\<bar>"
  shows "round64 r = (if 0 < r then PInf else NInf)"
proof -
  have "expo r = 1024" using assms by (rule expo_overflow)
  then have "2 ^ 1024 \<le> \<bar>rne r\<bar>" by (rule rne_large)
  then have "max_double < \<bar>rne r\<bar>" by (simp add: max_double_def)
  then show ?thesis by (simp add: round64_def)
qed

lemma rne_lower:
  assumes "0 \<le> r" and "r < 2 ^ 1024"
  shows "r - 2 ^ 970 \<le> rne r"
proof -
  have "expo r \<noteq> 1024"
  proof
    assume "expo r = 1024"
    then have "2 powi 1024 \<le> \<bar>r\<bar>" using expo_lower [of r] by simp
    then show False using assms by simp
  qed
  then have "expo r \<le> 1023" using expo_range(2) [of r] by simp
  then have "expo r - 52 \<le> 971" by simp
  then have "(2::real) powi (expo r - 52) \<le> 2 powi 971" by (simp only: pow2_le)
  then have "ulp r / 2 \<le> 2 ^ 970" by (simp add: ulp_def)
  then show ?thesis using rne_err [of r] by linarith
qed
section \<open>The converter on one row: lemmas\<close>

lemmas norm_simps = norm_unit_def py_lower_def py_lower_char_def upper_chars_def lower_chars_def
      py_replace_char_def py_strip_def is_space_def

lemmas unit_tables = length_units_def mass_units_def time_units_def pressure_units_def
  force_units_def energy_units_def

lemma double_int:
  assumes "\<bar>n\<bar> < 2 ^ 53"
  shows "is_double (of_int n)"
proof -
  have "\<bar>of_int n :: real\<bar> < 2 ^ 53"
    using assms by (simp only: of_int_abs [symmetric] of_int_less_numeral_power_cancel_iff)
  then show ?thesis using rne_int [OF assms] by (simp add: is_double_def max_double_def)
qed

lemma val_dbl_int:
  assumes "\<bar>n\<bar> < 2 ^ 53"
  shows "to_real (dbl (of_int n)) = of_int n"
  using double_int [OF assms] by (rule val_dbl_exact)

lemma val_literals [simp]:
  "to_real (dbl 0) = 0" "to_real (dbl 1) = 1" "to_real (dbl 5) = 5" "to_real (dbl 9) = 9" "to_real (dbl 32) = 32"
  "to_real (dbl 100) = 100" "to_real (dbl 1000) = 1000"
  using val_dbl_int [of 0] val_dbl_int [of 1] val_dbl_int [of 5] val_dbl_int [of 9]
    val_dbl_int [of 32] val_dbl_int [of 100] val_dbl_int [of 1000]
  by simp_all

lemma fmul_c_one: "fmul_c f (dbl 1) = f"
  by (cases f) simp_all

lemma convert_one_isna: "isna val \<or> isna unit \<Longrightarrow> convert_one L val unit = (val, unit)"
  by (simp add: convert_one_def)

lemma convert_one_unparseable: "to_float L val = None \<Longrightarrow> convert_one L val unit = (val, unit)"
  by (simp add: convert_one_def)

lemma convert_one_unknown:
  "norm_unit (py_str L unit) \<notin> set known_units \<Longrightarrow> convert_one L val unit = (val, unit)"
  by (auto simp add: convert_one_def known_units_def unit_tables Let_def split: option.splits)

lemma convert_one_celsius:
  assumes "\<not> isna val" "\<not> isna unit" "to_float L val = Some v"
    and "norm_unit (py_str L unit) \<in> {''c'', ''degc''}"
  shows "convert_one L val unit = (Flt (fadd_c v (dbl 273.15)), Str ''K'')"
  using assms by (auto simp add: convert_one_def)

lemma convert_one_fahrenheit:
  assumes "\<not> isna val" "\<not> isna unit" "to_float L val = Some v"
    and "norm_unit (py_str L unit) \<in> {''f'', ''degf''}"
  shows "convert_one L val unit
     = (Flt (fadd_c (fdiv_c (fmul_c (fsub_c v (dbl 32)) (dbl 5)) (dbl 9)) (dbl 273.15)), Str ''K'')"
  using assms by (auto simp add: convert_one_def)

lemma in_range:
  assumes "\<bar>r\<bar> \<le> max_double + 2 ^ 969"
  shows "\<bar>r\<bar> < 2 ^ 1024 - 2 ^ 970"
  using assms by (simp add: max_double_def)

lemma to_real_round:
  assumes "\<bar>r\<bar> \<le> max_double + 2 ^ 969"
  shows "round64 r = Fin (dbl r)" "to_real (dbl r) = rne r" "\<bar>rne r\<bar> \<le> max_double"
proof -
  have b: "\<bar>r\<bar> < 2 ^ 1024 - 2 ^ 970" using assms by (rule in_range)
  show "round64 r = Fin (dbl r)" using b by (rule round64_fin)
  show "\<bar>rne r\<bar> \<le> max_double" using b by (rule rne_bound)
  then show "to_real (dbl r) = rne r" by (rule val_dbl)
qed

lemma max_double_large: "2 ^ 1000 \<le> max_double"
  by (simp add: max_double_def)

lemma kelvin_literal: "to_real (dbl 273.15) = rne 273.15"
  using max_double_large by (intro to_real_round(2)) simp

lemma kelvin_double: "rne 273.15 = 4805305618032230 / 2 ^ 44"
  using rne_nearest [of "- 44" "273.15" 4805305618032230] by simp

lemma round64_small:
  assumes "\<bar>r\<bar> \<le> 2 ^ 1000"
  shows "round64 r = Fin (dbl r)"
  using assms max_double_large by (intro to_real_round(1)) simp

lemma celsius_formula: "fadd_c (Fin x) (dbl 273.15) = round64 (to_real x + rne 273.15)"
  by (simp only: fadd_c.simps kelvin_literal)

lemma fahrenheit_formula:
  "fadd_c (fdiv_c (fmul_c (fsub_c (Fin x) (dbl 32)) (dbl 5)) (dbl 9)) (dbl 273.15) =
     (let a = rne (to_real x - 32); b = rne (a * 5); c = rne (b / 9)
      in if \<bar>b\<bar> \<le> max_double then round64 (c + rne 273.15)
         else if 0 < a then PInf else NInf)"
proof -
  define a where "a = rne (to_real x - 32)"
  define b where "b = rne (a * 5)"
  define c where "c = rne (b / 9)"
  have "\<bar>to_real x - 32\<bar> \<le> max_double + 2 ^ 969"
    using val_bound [of x] by simp
  then have s: "fsub_c (Fin x) (dbl 32) = Fin (dbl (to_real x - 32))"
    and a: "to_real (dbl (to_real x - 32)) = a"
    by (simp_all add: to_real_round a_def)
  show ?thesis
  proof (cases "\<bar>b\<bar> \<le> max_double")
    case True
    then have m: "fmul_c (Fin (dbl (to_real x - 32))) (dbl 5) = Fin (dbl (a * 5))"
      by (simp add: a round64_def b_def)
    have bb: "to_real (dbl (a * 5)) = b" using True unfolding b_def by (rule val_dbl)
    have "\<bar>b / 9\<bar> \<le> \<bar>b\<bar>" by simp
    then have "\<bar>b / 9\<bar> \<le> max_double + 2 ^ 969" using True by simp
    then have d: "fdiv_c (Fin (dbl (a * 5))) (dbl 9) = Fin (dbl (b / 9))"
      and cc: "to_real (dbl (b / 9)) = c"
      by (simp_all add: bb to_real_round c_def)
    have e: "fadd_c (Fin (dbl (b / 9))) (dbl 273.15) = round64 (c + rne 273.15)"
      by (simp only: fadd_c.simps kelvin_literal cc)
    have "fadd_c (fdiv_c (fmul_c (fsub_c (Fin x) (dbl 32)) (dbl 5)) (dbl 9)) (dbl 273.15)
        = round64 (c + rne 273.15)"
      by (simp only: s m d e)
    moreover have "(let a = rne (to_real x - 32); b = rne (a * 5); c = rne (b / 9)
        in if \<bar>b\<bar> \<le> max_double then round64 (c + rne 273.15)
           else if 0 < a then PInf else NInf) = round64 (c + rne 273.15)"
      using True
      by (simp only: Let_def a_def [symmetric] b_def [symmetric] c_def [symmetric] if_True)
    ultimately show ?thesis by (simp only:)
  next
    case False
    then have m: "fmul_c (Fin (dbl (to_real x - 32))) (dbl 5) = (if 0 < a then PInf else NInf)"
      by (simp add: a round64_def b_def zero_less_mult_iff)
    have "fadd_c (fdiv_c (fmul_c (fsub_c (Fin x) (dbl 32)) (dbl 5)) (dbl 9)) (dbl 273.15)
        = fadd_c (fdiv_c (if 0 < a then PInf else NInf) (dbl 9)) (dbl 273.15)"
      by (simp only: s m)
    also have "\<dots> = (if 0 < a then PInf else NInf)"
      by simp
    finally have "fadd_c (fdiv_c (fmul_c (fsub_c (Fin x) (dbl 32)) (dbl 5)) (dbl 9)) (dbl 273.15)
        = (if 0 < a then PInf else NInf)" .
    moreover have "(let a = rne (to_real x - 32); b = rne (a * 5); c = rne (b / 9)
        in if \<bar>b\<bar> \<le> max_double then round64 (c + rne 273.15)
           else if 0 < a then PInf else NInf) = (if 0 < a then PInf else NInf)"
      using False
      by (simp only: Let_def a_def [symmetric] b_def [symmetric] c_def [symmetric] if_False)
    ultimately show ?thesis by (simp only:)
  qed
qed

lemma max_double_ge:
  assumes "r \<le> 2 ^ 1000"
  shows "r \<le> max_double"
  using assms max_double_large by simp

lemma convert_one_overflow:
  "convert_one L (Flt (Fin (dbl (10 ^ 308)))) (Str ''km'') = (Flt PInf, Str ''m'')"
proof -
  have b: "\<bar>10 ^ 308 :: real\<bar> \<le> max_double + 2 ^ 969" by (simp add: max_double_def)
  have v: "to_real (dbl (10 ^ 308)) = rne (10 ^ 308)" using b by (rule to_real_round(2))
  have "(10 ^ 308 :: real) - 2 ^ 970 \<le> rne (10 ^ 308)" by (rule rne_lower) simp_all
  then have "(2 ^ 1024 :: real) \<le> rne (10 ^ 308) * 1000" by simp
  then have "round64 (rne (10 ^ 308) * 1000) = PInf"
    using round64_overflow [of "rne (10 ^ 308) * 1000"] by (simp add: abs_if)
  then have m: "fmul_c (Fin (dbl (10 ^ 308))) (dbl 1000) = PInf"
    by (simp only: fmul_c.simps v val_literals)
  have n: "norm_unit ''km'' = ''km''" by code_simp
  have "convert_one L (Flt (Fin (dbl (10 ^ 308)))) (Str ''km'')
      = (Flt (fmul_c (Fin (dbl (10 ^ 308))) (dbl 1000)), Str ''m'')"
    by (simp add: convert_one_def n unit_tables del: fmul_c.simps)
  then show ?thesis by (simp only: m)
qed
lemma convert_one_shape:
  "convert_one L val unit = (val, unit) \<or>
   (\<exists>f c. convert_one L val unit = (Flt f, Str c) \<and> c \<in> set canonical_units)"
  by (simp add: convert_one_def canonical_units_def Let_def option.case_eq_if)

lemma norm_canonical:
  "norm_unit ''K'' = ''k''" "norm_unit ''m'' = ''m''" "norm_unit ''kg'' = ''kg''"
  "norm_unit ''s'' = ''s''" "norm_unit ''Pa'' = ''pa''" "norm_unit ''N'' = ''n''"
  "norm_unit ''J'' = ''j''" "norm_unit ''1'' = ''1''"
  by code_simp+

lemma convert_one_canonical:
  assumes "c \<in> set canonical_units"
  shows "convert_one L (Flt f) (Str c) = (Flt f, Str c)"
proof (cases "f = NaN")
  case True
  then show ?thesis by (simp add: convert_one_def)
next
  case False
  then have n: "\<not> isna (Flt f)" by (cases f) simp_all
  from assms have "c = ''K'' \<or> c = ''m'' \<or> c = ''kg'' \<or> c = ''s'' \<or> c = ''Pa''
    \<or> c = ''N'' \<or> c = ''J'' \<or> c = ''1''"
    by (simp add: canonical_units_def)
  then show ?thesis
    by (elim disjE) (simp_all add: convert_one_def n norm_canonical unit_tables fmul_c_one)
qed

lemma convert_one_idem:
  "convert_one L (fst (convert_one L val unit)) (snd (convert_one L val unit)) = convert_one L val unit"
  using convert_one_shape [of L val unit] convert_one_canonical [of _ L]
  by (metis fst_conv snd_conv)

section \<open>The loop over the rows of a pair\<close>

lemma endswith_iff: "endswith s suf \<longleftrightarrow> (\<exists>b. s = b @ suf)"
proof
  assume "endswith s suf"
  then have "s = take (length s - length suf) s @ suf"
    by (metis append_take_drop_id endswith_def)
  then show "\<exists>b. s = b @ suf" ..
next
  assume "\<exists>b. s = b @ suf"
  then show "endswith s suf" by (auto simp add: endswith_def)
qed

lemma unit_name_app [simp]: "unit_name (b @ ''_value'') = b @ ''_unit''"
  by (simp add: unit_name_def)

lemma value_name_app [simp]: "value_name (b @ ''_unit'') = b @ ''_value''"
  by (simp add: value_name_def)

lemma unit_name_not_value: "\<not> endswith (b @ ''_unit'') ''_value''"
  by (simp add: endswith_def)

lemma unit_name_inj:
  assumes "endswith c ''_value''" "endswith d ''_value''" "unit_name c = unit_name d"
  shows "c = d"
proof -
  from assms obtain b b' where "c = b @ ''_value''" "d = b' @ ''_value''"
    by (auto simp add: endswith_iff)
  with assms(3) show ?thesis by simp
qed

lemma col_cells_map:
  assumes "\<And>c. cname (f c) = cname c"
  shows "col_cells (map f df) n = (case find (\<lambda>c. cname c = n) df of Some c \<Rightarrow> cells (f c) | None \<Rightarrow> [])"
  using assms by (induction df) (auto simp add: col_cells_def)

lemma col_cells_in:
  assumes "distinct (map cname df)" "c \<in> set df"
  shows "col_cells df (cname c) = cells c"
  using assms by (induction df) (auto simp add: col_cells_def)

lemma col_cells_length:
  assumes "wf_table df" "has_col df n"
  shows "length (col_cells df n) = nrows df"
proof -
  from assms(2) obtain c where c: "c \<in> set df" "cname c = n" by (auto simp add: has_col_def)
  with assms(1) have "col_cells df n = cells c" using col_cells_in by (auto simp add: wf_table_def)
  moreover from assms(1) c have "length (cells c) = nrows df"
    by (auto simp add: wf_table_def list_all_iff)
  ultimately show ?thesis by simp
qed

lemma cname_at_set [simp]: "cname (at_set i x c) = cname c"
  by (simp add: at_set_def)

lemma cells_at_set [simp]: "cells (at_set i x c) = (cells c)[i := x]"
  by (simp add: at_set_def)

lemma cname_write_all [simp]: "cname (write_all sel L rows c) = cname c"
  unfolding write_all_def by (induction rows arbitrary: c) auto

lemma cells_write_all:
  "cells (write_all sel L rows c) =
     fold (\<lambda>(i, v, u) xs. xs[i := sel (convert_one L v u)]) rows (cells c)"
  unfolding write_all_def by (induction rows arbitrary: c) auto

lemma convert_rows_map:
  assumes "col \<noteq> ucol"
  shows "convert_rows L col ucol rows df =
     map (\<lambda>c. if cname c = col then write_all fst L rows c
               else if cname c = ucol then write_all snd L rows c else c) df"
proof (induction rows arbitrary: df)
  case Nil
  show ?case by (simp add: write_all_def map_idI)
next
  case (Cons r rows)
  obtain i v u where r: "r = (i, v, u)" by (cases r)
  obtain nv nu where cv: "convert_one L v u = (nv, nu)" by (cases "convert_one L v u")
  show ?case
    using assms by (simp add: r cv Cons.IH set_at_def set_col_def write_all_def)
qed

lemma fold_update_from:
  assumes "k + length ys \<le> length xs"
  shows "fold (\<lambda>(i, y) xs. xs[i := g y]) (enumerate k ys) xs =
           take k xs @ map g ys @ drop (k + length ys) xs"
  using assms
proof (induction ys arbitrary: k xs)
  case Nil
  then show ?case by simp
next
  case (Cons y ys)
  have "fold (\<lambda>(i, y) xs. xs[i := g y]) (enumerate (Suc k) ys) (xs[k := g y])
      = take (Suc k) (xs[k := g y]) @ map g ys @ drop (Suc k + length ys) (xs[k := g y])"
    using Cons.prems by (intro Cons.IH) simp
  also have "take (Suc k) (xs[k := g y]) = take k xs @ [g y]"
    using Cons.prems by (simp add: take_Suc_conv_app_nth)
  also have "drop (Suc k + length ys) (xs[k := g y]) = drop (Suc k + length ys) xs"
    by simp
  finally show ?case by simp
qed

lemma fold_update_all:
  assumes "length xs = length ys"
  shows "fold (\<lambda>(i, y) xs. xs[i := g y]) (zip [0..<length ys] ys) xs = map g ys"
  using fold_update_from [of 0 ys xs g] assms by (simp add: enumerate_eq_zip)

lemma cells_write_all_iterrows:
  assumes "length (cells c) = n" "length vs = n" "length us = n"
  shows "cells (write_all sel L (zip [0..<n] (zip vs us)) c) =
           map (\<lambda>(v, u). sel (convert_one L v u)) (zip vs us)"
proof -
  have "fold (\<lambda>(i, y) xs. xs[i := (\<lambda>(v, u). sel (convert_one L v u)) y])
          (zip [0..<length (zip vs us)] (zip vs us)) (cells c)
        = map (\<lambda>(v, u). sel (convert_one L v u)) (zip vs us)"
    using assms by (intro fold_update_all) simp
  moreover have "(\<lambda>(i, v, u) xs. xs[i := sel (convert_one L v u)])
     = (\<lambda>(i, y) xs. xs[i := (\<lambda>(v, u). sel (convert_one L v u)) y])"
    by (auto simp add: fun_eq_iff)
  ultimately show ?thesis using assms by (simp add: cells_write_all)
qed

section \<open>One pair of columns\<close>

lemma find_cname:
  assumes "has_col df n"
  obtains c where "find (\<lambda>c. cname c = n) df = Some c" "cname c = n" "c \<in> set df"
proof -
  from assms have "\<exists>c\<in>set df. cname c = n" by (auto simp add: has_col_def)
  then obtain c where f: "find (\<lambda>c. cname c = n) df = Some c"
    by (cases "find (\<lambda>c. cname c = n) df") (auto simp add: find_None_iff)
  then have "cname c = n" "c \<in> set df"
    by (auto simp add: find_Some_iff)
  with f show ?thesis using that by blast
qed

lemma col_cells_find:
  assumes "find (\<lambda>c. cname c = n) df = Some c"
  shows "col_cells df n = cells c"
  using assms by (simp add: col_cells_def)

lemma col_cells_absent:
  assumes "\<not> has_col df n"
  shows "col_cells df n = []"
proof -
  from assms have "find (\<lambda>c. cname c = n) df = None"
    by (auto simp add: find_None_iff has_col_def)
  then show ?thesis by (simp add: col_cells_def)
qed

lemma cname_to_numeric [simp]: "cname (to_numeric_coerce L c) = cname c"
  by (simp add: to_numeric_coerce_def)

lemma cname_pair_col [simp]: "cname (pair_col L df col c) = cname c"
  by (simp add: pair_col_def)

lemma value_neq_unit:
  assumes "endswith col ''_value''"
  shows "col \<noteq> unit_name col"
proof -
  from assms obtain b where "col = b @ ''_value''" by (auto simp add: endswith_iff)
  then show ?thesis by simp
qed

lemma convert_pair_map:
  assumes "endswith col ''_value''" "has_col df (unit_name col)"
  shows "convert_pair L col df = map (pair_col L df col) df"
  using assms value_neq_unit [OF assms(1)]
  by (simp add: convert_pair_def Let_def convert_rows_map set_col_def pair_col_def)

lemma convert_pair_id:
  assumes "\<not> (endswith col ''_value'' \<and> has_col df (unit_name col))"
  shows "convert_pair L col df = df"
  using assms by (auto simp add: convert_pair_def Let_def)

lemma convert_pair_names [simp]: "map cname (convert_pair L col df) = map cname df"
proof (cases "endswith col ''_value'' \<and> has_col df (unit_name col)")
  case True
  then show ?thesis by (simp add: convert_pair_map)
next
  case False
  then show ?thesis by (simp add: convert_pair_id)
qed

lemma cells_pair_col_length:
  "length (cells (pair_col L df col c)) = length (cells c)"
proof -
  have "length (cells (write_all sel L rows c)) = length (cells c)" for sel rows
    unfolding write_all_def by (induction rows arbitrary: c) auto
  then show ?thesis by (simp add: pair_col_def to_numeric_coerce_def)
qed

lemma nrows_map:
  assumes "\<And>c. length (cells (f c)) = length (cells c)"
  shows "nrows (map f df) = nrows df"
  using assms by (cases df) (simp_all add: nrows_def)

lemma convert_pair_wf:
  assumes "wf_table df"
  shows "wf_table (convert_pair L col df)"
proof (cases "endswith col ''_value'' \<and> has_col df (unit_name col)")
  case True
  then have e: "convert_pair L col df = map (pair_col L df col) df"
    by (simp add: convert_pair_map)
  have n: "nrows (map (pair_col L df col) df) = nrows df"
    by (rule nrows_map) (rule cells_pair_col_length)
  have d: "distinct (map cname (convert_pair L col df))"
    using assms by (simp add: wf_table_def)
  show ?thesis
    using assms d unfolding e wf_table_def
    by (simp add: n list_all_iff cells_pair_col_length)
next
  case False
  then show ?thesis using assms by (simp add: convert_pair_id)
qed

lemma convert_pair_cells:
  assumes wf: "wf_table df" and v: "is_value_col df col"
  shows "col_cells (convert_pair L col df) m =
     (if m = col then map (\<lambda>r. num_coerce L (fst r)) (pair_results L df col)
      else if m = unit_name col then map snd (pair_results L df col)
      else col_cells df m)"
proof -
  from v have ev: "endswith col ''_value''" and hc: "has_col df col"
    and hu: "has_col df (unit_name col)"
    by (simp_all add: is_value_col_def)
  have e: "convert_pair L col df = map (pair_col L df col) df"
    using ev hu by (rule convert_pair_map)
  have cm: "col_cells (map (pair_col L df col) df) n =
     (case find (\<lambda>c. cname c = n) df of Some c \<Rightarrow> cells (pair_col L df col c) | None \<Rightarrow> [])" for n
    by (rule col_cells_map) simp
  have lv: "length (col_cells df col) = nrows df" using wf hc by (rule col_cells_length)
  have lu: "length (col_cells df (unit_name col)) = nrows df" using wf hu by (rule col_cells_length)
  have ne: "col \<noteq> unit_name col" using ev by (rule value_neq_unit)
  show ?thesis
  proof (cases "m = col")
    case True
    from hc obtain c where f: "find (\<lambda>c. cname c = col) df = Some c" and cn: "cname c = col"
      by (rule find_cname)
    have lc: "length (cells c) = nrows df" using lv f by (simp add: col_cells_find)
    have "cells (pair_col L df col c) =
        map (num_coerce L) (map (\<lambda>(v, u). fst (convert_one L v u))
           (zip (col_cells df col) (col_cells df (unit_name col))))"
      using cn lc lv lu
      by (simp add: pair_col_def to_numeric_coerce_def iterrows_def cells_write_all_iterrows)
    then show ?thesis
      using True f by (simp add: e cm pair_results_def split_def comp_def)
  next
    case False
    show ?thesis
    proof (cases "m = unit_name col")
      case True
      from hu obtain c where f: "find (\<lambda>c. cname c = unit_name col) df = Some c"
        and cn: "cname c = unit_name col"
        by (rule find_cname)
      have lc: "length (cells c) = nrows df" using lu f by (simp add: col_cells_find)
      have "cells (pair_col L df col c) =
          map (\<lambda>(v, u). snd (convert_one L v u))
             (zip (col_cells df col) (col_cells df (unit_name col)))"
        using cn lc lv lu ne
        by (simp add: pair_col_def iterrows_def cells_write_all_iterrows)
      then show ?thesis
        using True ne f by (simp add: e cm pair_results_def split_def comp_def)
    next
      case nu: False
      show ?thesis
      proof (cases "find (\<lambda>c. cname c = m) df")
        case None
        then have "col_cells df m = []" by (simp add: col_cells_def)
        then show ?thesis using False nu None by (simp add: e cm)
      next
        case (Some c)
        then have "cname c = m" by (auto simp add: find_Some_iff)
        moreover have "col_cells df m = cells c" using Some by (rule col_cells_find)
        ultimately show ?thesis using False nu Some by (simp add: e cm pair_col_def)
      qed
    qed
  qed
qed

section \<open>All pairs\<close>

lemma has_col_convert_pair [simp]: "has_col (convert_pair L c df) n = has_col df n"
  by (simp add: has_col_def)

lemma is_value_col_convert_pair [simp]:
  "is_value_col (convert_pair L c df) n = is_value_col df n"
  by (simp add: is_value_col_def)

lemma is_unit_col_convert_pair [simp]:
  "is_unit_col (convert_pair L c df) n = is_unit_col df n"
  by (simp add: is_unit_col_def)

lemma convert_pair_cells_other:
  assumes "m \<noteq> c" "m \<noteq> unit_name c"
  shows "col_cells (convert_pair L c df) m = col_cells df m"
proof (cases "endswith c ''_value'' \<and> has_col df (unit_name c)")
  case False
  then show ?thesis by (simp add: convert_pair_id)
next
  case True
  then have e: "convert_pair L c df = map (pair_col L df c) df"
    by (simp add: convert_pair_map)
  have cm: "col_cells (map (pair_col L df c) df) m =
     (case find (\<lambda>x. cname x = m) df of Some x \<Rightarrow> cells (pair_col L df c x) | None \<Rightarrow> [])"
    by (rule col_cells_map) simp
  show ?thesis
  proof (cases "find (\<lambda>x. cname x = m) df")
    case None
    then have "col_cells df m = []" by (simp add: col_cells_def)
    then show ?thesis using None by (simp add: e cm)
  next
    case (Some x)
    then have "cname x = m" by (auto simp add: find_Some_iff)
    moreover have "col_cells df m = cells x" using Some by (rule col_cells_find)
    ultimately show ?thesis using assms Some by (simp add: e cm pair_col_def)
  qed
qed

lemma unit_name_of_value:
  assumes "endswith c ''_value''"
  shows "endswith (unit_name c) ''_unit''" "\<not> endswith (unit_name c) ''_value''"
    "value_name (unit_name c) = c"
proof -
  from assms obtain b where "c = b @ ''_value''" by (auto simp add: endswith_iff)
  then show "endswith (unit_name c) ''_unit''" "\<not> endswith (unit_name c) ''_value''"
    "value_name (unit_name c) = c"
    by (simp_all add: endswith_def)
qed

lemma value_name_of_unit:
  assumes "endswith u ''_unit''"
  shows "endswith (value_name u) ''_value''" "\<not> endswith u ''_value''"
    "unit_name (value_name u) = u"
proof -
  from assms obtain b where "u = b @ ''_unit''" by (auto simp add: endswith_iff)
  then show "endswith (value_name u) ''_value''" "\<not> endswith u ''_value''"
    "unit_name (value_name u) = u"
    by (simp_all add: endswith_def)
qed

lemma is_unit_col_value:
  assumes "is_unit_col df u"
  shows "is_value_col df (value_name u)"
  using assms value_name_of_unit [of u] by (simp add: is_unit_col_def is_value_col_def)

lemma is_value_col_unit:
  assumes "is_value_col df c"
  shows "is_unit_col df (unit_name c)"
  using assms unit_name_of_value [of c] by (simp add: is_unit_col_def is_value_col_def)

lemma pair_results_stable:
  assumes "endswith m ''_value''" "m \<noteq> c"
  shows "pair_results L (convert_pair L c df) m = pair_results L df m"
proof (cases "endswith c ''_value''")
  case False
  then show ?thesis by (simp add: convert_pair_id)
next
  case True
  have 1: "m \<noteq> unit_name c" using unit_name_of_value(2) [OF True] assms(1) by auto
  have 2: "unit_name m \<noteq> c" using unit_name_of_value(2) [OF assms(1)] True by auto
  have 3: "unit_name m \<noteq> unit_name c" using unit_name_inj [OF assms(1) True] assms(2) by auto
  show ?thesis
    using assms(2) 1 2 3 by (simp add: pair_results_def convert_pair_cells_other)
qed

lemma fold_convert_pair_names [simp]:
  "map cname (fold (convert_pair L) cs df) = map cname df"
  by (induction cs arbitrary: df) simp_all

lemma fold_convert_cells:
  assumes "wf_table df" "distinct cs" "\<forall>c\<in>set cs. has_col df c"
  shows "col_cells (fold (convert_pair L) cs df) m = conv_cells L df (set cs) m"
  using assms
proof (induction cs arbitrary: df)
  case Nil
  then show ?case by (simp add: conv_cells_def)
next
  case (Cons c cs)
  let ?df = "convert_pair L c df"
  have wf': "wf_table ?df" using Cons.prems(1) by (rule convert_pair_wf)
  have ih: "col_cells (fold (convert_pair L) cs ?df) m = conv_cells L ?df (set cs) m"
    using wf' Cons.prems by (intro Cons.IH) simp_all
  have cnot: "c \<notin> set cs" using Cons.prems(2) by simp
  have hc: "has_col df c" using Cons.prems(3) by simp
  have "conv_cells L ?df (set cs) m = conv_cells L df (set (c # cs)) m"
  proof (cases "m \<in> set cs \<and> is_value_col df m")
    case True
    then have "m \<noteq> c" "endswith m ''_value''" using cnot by (auto simp add: is_value_col_def)
    then show ?thesis using True by (simp add: conv_cells_def pair_results_stable)
  next
    case nv: False
    show ?thesis
    proof (cases "is_unit_col df m \<and> value_name m \<in> set cs")
      case True
      then have v: "is_value_col df (value_name m)" by (simp add: is_unit_col_value)
      then have "value_name m \<noteq> c" "endswith (value_name m) ''_value''"
        using True cnot by (auto simp add: is_value_col_def)
      moreover have "\<not> is_value_col df m"
        using True value_name_of_unit(2) [of m] by (simp add: is_unit_col_def is_value_col_def)
      ultimately show ?thesis using True by (simp add: conv_cells_def pair_results_stable)
    next
      case nu: False
      show ?thesis
      proof (cases "is_value_col df c")
        case False
        then have "?df = df" using hc by (simp add: convert_pair_id is_value_col_def)
        moreover have "\<not> (is_unit_col df m \<and> value_name m = c)"
          using False is_unit_col_value by blast
        ultimately show ?thesis using nv nu False by (auto simp add: conv_cells_def)
      next
        case True
        have cc: "col_cells ?df m =
          (if m = c then map (\<lambda>r. num_coerce L (fst r)) (pair_results L df c)
           else if m = unit_name c then map snd (pair_results L df c)
           else col_cells df m)"
          using Cons.prems(1) True by (rule convert_pair_cells)
        have ev: "endswith c ''_value''" using True by (simp add: is_value_col_def)
        show ?thesis
        proof (cases "m = c")
          case mc: True
          then show ?thesis using nv nu True cc by (auto simp add: conv_cells_def)
        next
          case mc: False
          show ?thesis
          proof (cases "m = unit_name c")
            case mu: True
            have "is_unit_col df m" using True mu by (simp add: is_value_col_unit)
            moreover have "value_name m = c" using mu unit_name_of_value(3) [OF ev] by simp
            moreover have "\<not> is_value_col df m"
              using mu unit_name_of_value(2) [OF ev] by (simp add: is_value_col_def)
            ultimately show ?thesis using nv nu cc mc mu by (auto simp add: conv_cells_def)
          next
            case mu: False
            have "\<not> (is_unit_col df m \<and> value_name m = c)"
              using mu value_name_of_unit(3) [of m] by (auto simp add: is_unit_col_def)
            then show ?thesis using nv nu cc mc mu by (auto simp add: conv_cells_def)
          qed
        qed
      qed
    qed
  qed
  then show ?case using ih by simp
qed

lemma convert_units_cells:
  assumes "wf_table df"
  shows "col_cells (convert_units_to_SI L df) m =
    (if is_value_col df m then map (\<lambda>r. num_coerce L (fst r)) (pair_results L df m)
     else if is_unit_col df m then map snd (pair_results L df (value_name m))
     else col_cells df m)"
proof -
  have "col_cells (convert_units_to_SI L df) m = conv_cells L df (set (map cname df)) m"
    unfolding convert_units_to_SI_def
    using assms by (intro fold_convert_cells) (simp_all add: wf_table_def has_col_def)
  moreover have "is_value_col df m \<Longrightarrow> m \<in> set (map cname df)"
    by (simp add: is_value_col_def has_col_def)
  moreover have "is_unit_col df m \<Longrightarrow> value_name m \<in> set (map cname df)"
    by (simp add: is_unit_col_def has_col_def)
  ultimately show ?thesis by (auto simp add: conv_cells_def)
qed

lemma convert_units_names: "map cname (convert_units_to_SI L df) = map cname df"
  by (simp add: convert_units_to_SI_def)

lemma norm_unit_examples:
  "norm_unit ''C'' = ''c''" "norm_unit ''F'' = ''f''" "norm_unit ''lightyear'' = ''lightyear''"
  "norm_unit ''mm'' = ''mm''"
  by code_simp+

lemma num_coerce_flt [simp]: "num_coerce L (Flt f) = Flt f"
  by (simp add: num_coerce_def)

lemma convert_units_row:
  assumes wf: "wf_table df" and v: "is_value_col df col" and i: "i < nrows df"
  shows "col_cells (convert_units_to_SI L df) col ! i =
           num_coerce L (fst (convert_one L (col_cells df col ! i) (col_cells df (unit_name col) ! i)))"
    and "col_cells (convert_units_to_SI L df) (unit_name col) ! i =
           snd (convert_one L (col_cells df col ! i) (col_cells df (unit_name col) ! i))"
proof -
  from v have ev: "endswith col ''_value''" and hc: "has_col df col"
    and hu: "has_col df (unit_name col)"
    by (simp_all add: is_value_col_def)
  have lv: "length (col_cells df col) = nrows df" using wf hc by (rule col_cells_length)
  have lu: "length (col_cells df (unit_name col)) = nrows df" using wf hu by (rule col_cells_length)
  have n: "pair_results L df col ! i =
      convert_one L (col_cells df col ! i) (col_cells df (unit_name col) ! i)"
    using i lv lu by (simp add: pair_results_def)
  have l: "i < length (pair_results L df col)"
    using i lv lu by (simp add: pair_results_def)
  show "col_cells (convert_units_to_SI L df) col ! i =
           num_coerce L (fst (convert_one L (col_cells df col ! i) (col_cells df (unit_name col) ! i)))"
    using v l n by (simp add: convert_units_cells [OF wf])
  have u: "is_unit_col df (unit_name col)" using v by (rule is_value_col_unit)
  have nv: "\<not> is_value_col df (unit_name col)"
    using unit_name_of_value(2) [OF ev] by (simp add: is_value_col_def)
  have vn: "value_name (unit_name col) = col" using ev by (rule unit_name_of_value(3))
  show "col_cells (convert_units_to_SI L df) (unit_name col) ! i =
           snd (convert_one L (col_cells df col ! i) (col_cells df (unit_name col) ! i))"
    using u nv vn l n by (simp add: convert_units_cells [OF wf])
qed

section \<open>The claims about the unit converter\<close>

lemma dbl_eqI:
  assumes "rne r = rne q"
  shows "dbl r = dbl q"
  using assms by (simp add: dbl_def)

lemma kelvin_examples:
  "round64 (rne 273.15) = Fin (dbl 273.15)"
  "round64 (100 + rne 273.15) = Fin (dbl 373.15)"
  "round64 (- 40 + rne 273.15) = Fin (dbl 233.14999999999998)"
proof -
  have b: "\<bar>r\<bar> \<le> 2 ^ 1000 \<Longrightarrow> \<bar>r\<bar> \<le> max_double + 2 ^ 969" for r
    using max_double_large by simp
  have "rne (rne 273.15) = rne 273.15"
    using b [of "273.15"] by (intro rne_idem to_real_round(3)) simp
  then have "dbl (rne 273.15) = dbl 273.15" by (rule dbl_eqI)
  moreover have "round64 (rne 273.15) = Fin (dbl (rne 273.15))"
    using kelvin_double by (intro to_real_round(1) b) simp
  ultimately show "round64 (rne 273.15) = Fin (dbl 273.15)" by simp
  have "rne (100 + rne 273.15) = 6564524222473830 / 2 ^ 44"
    using rne_nearest [of "- 44" "100 + rne 273.15" 6564524222473830] kelvin_double by simp
  moreover have "rne 373.15 = 6564524222473830 / 2 ^ 44"
    using rne_nearest [of "- 44" "373.15" 6564524222473830] by simp
  ultimately have "dbl (100 + rne 273.15) = dbl 373.15" by (intro dbl_eqI) simp
  moreover have "round64 (100 + rne 273.15) = Fin (dbl (100 + rne 273.15))"
    using kelvin_double by (intro to_real_round(1) b) simp
  ultimately show "round64 (100 + rne 273.15) = Fin (dbl 373.15)" by simp
  have "rne (- 40 + rne 273.15) = 8203236352511180 / 2 ^ 45"
    using rne_nearest [of "- 45" "- 40 + rne 273.15" 8203236352511180] kelvin_double by simp
  moreover have "rne 233.14999999999998 = 8203236352511180 / 2 ^ 45"
    using rne_nearest [of "- 45" "233.14999999999998" 8203236352511180] by simp
  ultimately have "dbl (- 40 + rne 273.15) = dbl 233.14999999999998" by (intro dbl_eqI) simp
  moreover have "round64 (- 40 + rne 273.15) = Fin (dbl (- 40 + rne 273.15))"
    using kelvin_double by (intro to_real_round(1) b) simp
  ultimately show "round64 (- 40 + rne 273.15) = Fin (dbl 233.14999999999998)" by simp
qed

lemma rne_whole [simp]:
  "rne (- 72) = - 72" "rne (- 360) = - 360" "rne (- 40) = - 40"
  "rne 180 = 180" "rne 900 = 900" "rne 100 = 100"
  using rne_int [of "- 72"] rne_int [of "- 360"] rne_int [of "- 40"] rne_int [of 180]
    rne_int [of 900] rne_int [of 100]
  by simp_all

lemma to_real_more [simp]: "to_real (dbl (- 40)) = - 40" "to_real (dbl 212) = 212"
  using val_dbl_int [of "- 40"] val_dbl_int [of 212] by simp_all

lemma max_double_pos [simp]: "0 \<le> max_double" "900 \<le> max_double"
  using max_double_large by simp_all

text \<open>
  C1. In every row of a value/unit pair whose value reads as the float \<open>v\<close>, the converter
  returns the unit \<open>K\<close> and, computed in double arithmetic with every operation rounded to
  the nearest double, \<open>v + 273.15\<close> where the unit token normalises to \<open>c\<close> (or \<open>degc\<close>)
  and \<open>(v - 32) * 5 / 9 + 273.15\<close> where it normalises to \<open>f\<close> (or \<open>degf\<close>); the literal
  \<open>273.15\<close> is the double \<open>4805305618032230 / 2 ^ 44\<close>, and an infinity or a NaN stays what
  it is. In particular \<open>(0, C)\<close> and \<open>(32, F)\<close> both give \<open>(273.15, K)\<close>.
\<close>

theorem temperature_to_kelvin:
  assumes "wf_table df" and "is_value_col df col" and "i < nrows df"
    and "\<not> isna (col_cells df col ! i)"
    and "to_float L (col_cells df col ! i) = Some v"
    and "\<not> isna (col_cells df (unit_name col) ! i)"
    and "norm_unit (py_str L (col_cells df (unit_name col) ! i)) = u"
  shows "(u \<in> {''c'', ''degc''} \<longrightarrow>
            col_cells (convert_units_to_SI L df) col ! i
              = Flt (case v of Fin x \<Rightarrow> round64 (to_real x + rne 273.15) | _ \<Rightarrow> v) \<and>
            col_cells (convert_units_to_SI L df) (unit_name col) ! i = Str ''K'')
       \<and> (u \<in> {''f'', ''degf''} \<longrightarrow>
            col_cells (convert_units_to_SI L df) col ! i
              = Flt (case v of
                       Fin x \<Rightarrow>
                         (let a = rne (to_real x - 32); b = rne (a * 5); c = rne (b / 9)
                          in if \<bar>b\<bar> \<le> max_double then round64 (c + rne 273.15)
                             else if 0 < a then PInf else NInf)
                     | _ \<Rightarrow> v) \<and>
            col_cells (convert_units_to_SI L df) (unit_name col) ! i = Str ''K'')
       \<and> rne 273.15 = 4805305618032230 / 2 ^ 44
       \<and> convert_one L (Flt (Fin (dbl 0))) (Str ''C'') = (Flt (Fin (dbl 273.15)), Str ''K'')
       \<and> convert_one L (Flt (Fin (dbl 32))) (Str ''F'') = (Flt (Fin (dbl 273.15)), Str ''K'')"
proof -
  have cf: "fadd_c v (dbl 273.15)
      = (case v of Fin x \<Rightarrow> round64 (to_real x + rne 273.15) | _ \<Rightarrow> v)"
    by (cases v) (simp_all only: fadd_c.simps kelvin_literal pyfloat.case)
  have ff: "fadd_c (fdiv_c (fmul_c (fsub_c v (dbl 32)) (dbl 5)) (dbl 9)) (dbl 273.15)
      = (case v of
           Fin x \<Rightarrow>
             (let a = rne (to_real x - 32); b = rne (a * 5); c = rne (b / 9)
              in if \<bar>b\<bar> \<le> max_double then round64 (c + rne 273.15)
                 else if 0 < a then PInf else NInf)
         | _ \<Rightarrow> v)"
  proof (cases v)
    case (Fin x)
    then show ?thesis by (simp only: fahrenheit_formula pyfloat.case)
  qed simp_all
  have c: "u \<in> {''c'', ''degc''} \<Longrightarrow>
      convert_one L (col_cells df col ! i) (col_cells df (unit_name col) ! i)
        = (Flt (fadd_c v (dbl 273.15)), Str ''K'')"
    using assms(4-7) by (intro convert_one_celsius) simp_all
  have f: "u \<in> {''f'', ''degf''} \<Longrightarrow>
      convert_one L (col_cells df col ! i) (col_cells df (unit_name col) ! i)
        = (Flt (fadd_c (fdiv_c (fmul_c (fsub_c v (dbl 32)) (dbl 5)) (dbl 9)) (dbl 273.15)),
           Str ''K'')"
    using assms(4-7) by (intro convert_one_fahrenheit) simp_all
  have e1: "convert_one L (Flt (Fin (dbl 0))) (Str ''C'') = (Flt (Fin (dbl 273.15)), Str ''K'')"
    using convert_one_celsius [of "Flt (Fin (dbl 0))" "Str ''C''" L "Fin (dbl 0)"]
      kelvin_literal kelvin_examples(1)
    by (simp add: norm_unit_examples)
  have e2: "convert_one L (Flt (Fin (dbl 32))) (Str ''F'') = (Flt (Fin (dbl 273.15)), Str ''K'')"
    using convert_one_fahrenheit [of "Flt (Fin (dbl 32))" "Str ''F''" L "Fin (dbl 32)"]
      fahrenheit_formula [of "dbl 32"] kelvin_examples(1)
    by (simp add: norm_unit_examples)
  show ?thesis
    using c f e1 e2 kelvin_double
    by (simp add: convert_units_row [OF assms(1-3)] cf [symmetric] ff [symmetric])
qed

lemma temperature_table_facts:
  "wf_table temperature_table" "is_value_col temperature_table ''t_value''"
  "nrows temperature_table = 5" "unit_name ''t_value'' = ''t_unit''"
  "col_cells temperature_table ''t_value''
     = [Flt (Fin (dbl 0)), Flt (Fin (dbl 32)), Flt (Fin (dbl 100)), Flt (Fin (dbl (- 40))),
        Flt (Fin (dbl 212))]"
  "col_cells temperature_table ''t_unit''
     = [Str ''C'', Str ''F'', Str [CHR 0xB0, CHR ''C''], Str ''F'', Str ''degF'']"
  by (simp_all add: temperature_table_def wf_table_def nrows_def is_value_col_def endswith_def
      has_col_def unit_name_def col_cells_def)

lemma temperature_units:
  "norm_unit [CHR 0xB0, CHR ''C''] = ''degc''" "norm_unit ''degF'' = ''degf''"
  by code_simp+

theorem temperature_to_kelvin_witness:
  "wf_table temperature_table \<and> is_value_col temperature_table ''t_value''
   \<and> col_cells temperature_table ''t_value''
       = [Flt (Fin (dbl 0)), Flt (Fin (dbl 32)), Flt (Fin (dbl 100)), Flt (Fin (dbl (- 40))),
          Flt (Fin (dbl 212))]
   \<and> col_cells temperature_table ''t_unit''
       = [Str ''C'', Str ''F'', Str [CHR 0xB0, CHR ''C''], Str ''F'', Str ''degF'']
   \<and> col_cells (convert_units_to_SI ref_lib temperature_table) ''t_value'' ! 0
       = Flt (Fin (dbl 273.15))
   \<and> col_cells (convert_units_to_SI ref_lib temperature_table) ''t_value'' ! 1
       = Flt (Fin (dbl 273.15))
   \<and> col_cells (convert_units_to_SI ref_lib temperature_table) ''t_value'' ! 2
       = Flt (Fin (dbl 373.15))
   \<and> col_cells (convert_units_to_SI ref_lib temperature_table) ''t_value'' ! 3
       = Flt (Fin (dbl 233.14999999999998))
   \<and> col_cells (convert_units_to_SI ref_lib temperature_table) ''t_value'' ! 4
       = Flt (Fin (dbl 373.15))
   \<and> col_cells (convert_units_to_SI ref_lib temperature_table) ''t_unit'' ! 0 = Str ''K''
   \<and> col_cells (convert_units_to_SI ref_lib temperature_table) ''t_unit'' ! 3 = Str ''K''
   \<and> dbl 233.14999999999998 \<noteq> dbl 233.15"
proof -
  have n: "dbl 233.14999999999998 \<noteq> dbl 233.15"
  proof
    assume "dbl 233.14999999999998 = dbl 233.15"
    then have "to_real (dbl 233.14999999999998) = to_real (dbl 233.15)" by simp
    moreover have "to_real (dbl 233.14999999999998) = rne 233.14999999999998"
      using max_double_large by (intro to_real_round(2)) simp
    moreover have "to_real (dbl 233.15) = rne 233.15"
      using max_double_large by (intro to_real_round(2)) simp
    moreover have "rne 233.14999999999998 = 8203236352511180 / 2 ^ 45"
      using rne_nearest [of "- 45" "233.14999999999998" 8203236352511180] by simp
    moreover have "rne 233.15 = 8203236352511181 / 2 ^ 45"
      using rne_nearest [of "- 45" "233.15" 8203236352511181] by simp
    ultimately show False by simp
  qed
  show ?thesis
    using temperature_to_kelvin [of temperature_table "''t_value''" 0 ref_lib "Fin (dbl 0)" "''c''"]
      temperature_to_kelvin [of temperature_table "''t_value''" 1 ref_lib "Fin (dbl 32)" "''f''"]
      temperature_to_kelvin [of temperature_table "''t_value''" 2 ref_lib "Fin (dbl 100)" "''degc''"]
      temperature_to_kelvin [of temperature_table "''t_value''" 3 ref_lib "Fin (dbl (- 40))" "''f''"]
      temperature_to_kelvin [of temperature_table "''t_value''" 4 ref_lib "Fin (dbl 212)" "''degf''"]
      n kelvin_examples
    by (simp add: temperature_table_facts norm_unit_examples temperature_units max_double_ge)
qed

lemma fold_convert_pair_wf:
  assumes "wf_table df"
  shows "wf_table (fold (convert_pair L) cs df)"
  using assms by (induction cs arbitrary: df) (simp_all add: convert_pair_wf)

lemma convert_units_wf:
  assumes "wf_table df"
  shows "wf_table (convert_units_to_SI L df)"
  using assms by (simp add: convert_units_to_SI_def fold_convert_pair_wf)

lemma has_col_convert_units [simp]: "has_col (convert_units_to_SI L df) n = has_col df n"
  by (simp add: has_col_def convert_units_names)

lemma is_value_col_convert_units [simp]:
  "is_value_col (convert_units_to_SI L df) n = is_value_col df n"
  by (simp add: is_value_col_def)

lemma is_unit_col_convert_units [simp]:
  "is_unit_col (convert_units_to_SI L df) n = is_unit_col df n"
  by (simp add: is_unit_col_def)

lemma convert_one_again:
  assumes "is_flt v"
  shows "convert_one L (num_coerce L (fst (convert_one L v u))) (snd (convert_one L v u))
           = (num_coerce L (fst (convert_one L v u)), snd (convert_one L v u))"
proof -
  from assms obtain f where v: "v = Flt f" by (cases v) (simp_all add: is_flt_def)
  from convert_one_shape [of L v u] show ?thesis
  proof
    assume "convert_one L v u = (v, u)"
    then show ?thesis by (simp add: v)
  next
    assume "\<exists>f c. convert_one L v u = (Flt f, Str c) \<and> c \<in> set canonical_units"
    then obtain g c where "convert_one L v u = (Flt g, Str c)" "c \<in> set canonical_units"
      by blast
    then show ?thesis by (simp add: convert_one_canonical)
  qed
qed

lemma pair_results_again:
  assumes wf: "wf_table df" and v: "is_value_col df m" and fl: "list_all is_flt (col_cells df m)"
  shows "pair_results L (convert_units_to_SI L df) m =
           map (\<lambda>r. (num_coerce L (fst r), snd r)) (pair_results L df m)"
proof -
  have u: "is_unit_col df (unit_name m)" using v by (rule is_value_col_unit)
  from v have ev: "endswith m ''_value''" by (simp add: is_value_col_def)
  have nv: "\<not> is_value_col df (unit_name m)"
    using unit_name_of_value(2) [OF ev] by (simp add: is_value_col_def)
  have vn: "value_name (unit_name m) = m" using ev by (rule unit_name_of_value(3))
  have a: "col_cells (convert_units_to_SI L df) m =
      map (\<lambda>r. num_coerce L (fst r)) (pair_results L df m)"
    using v by (simp add: convert_units_cells [OF wf])
  have b: "col_cells (convert_units_to_SI L df) (unit_name m) = map snd (pair_results L df m)"
    using u nv vn by (simp add: convert_units_cells [OF wf])
  have z: "zip (map (\<lambda>r. num_coerce L (fst r)) R) (map snd R) =
             map (\<lambda>r. (num_coerce L (fst r), snd r)) R" for R :: "(cell \<times> cell) list"
    by (induction R) simp_all
  have "pair_results L (convert_units_to_SI L df) m =
      map (\<lambda>r. convert_one L (num_coerce L (fst r)) (snd r)) (pair_results L df m)"
    by (simp add: pair_results_def [of L "convert_units_to_SI L df"] a b z split_def comp_def)
  also have "\<dots> = map (\<lambda>r. (num_coerce L (fst r), snd r)) (pair_results L df m)"
  proof (rule map_cong [OF refl])
    fix r assume "r \<in> set (pair_results L df m)"
    then obtain x y where r: "r = convert_one L x y" and x: "x \<in> set (col_cells df m)"
      by (auto simp add: pair_results_def dest: set_zip_leftD)
    from x fl have "is_flt x" by (simp add: list_all_iff)
    then show "convert_one L (num_coerce L (fst r)) (snd r) = (num_coerce L (fst r), snd r)"
      unfolding r by (rule convert_one_again)
  qed
  finally show ?thesis .
qed

lemma num_coerce_idem [simp]: "num_coerce L (num_coerce L x) = num_coerce L x"
  by (simp add: num_coerce_def)

lemma convert_units_twice:
  assumes wf: "wf_table df" and nv: "numeric_values df"
  shows "col_cells (convert_units_to_SI L (convert_units_to_SI L df)) m =
           col_cells (convert_units_to_SI L df) m"
proof -
  have wf1: "wf_table (convert_units_to_SI L df)" using wf by (rule convert_units_wf)
  show ?thesis
  proof (cases "is_value_col df m")
    case True
    then have "list_all is_flt (col_cells df m)" using nv by (simp add: numeric_values_def)
    then show ?thesis
      using True
      by (simp add: convert_units_cells [OF wf1] convert_units_cells [OF wf]
          pair_results_again [OF wf True] comp_def)
  next
    case False
    show ?thesis
    proof (cases "is_unit_col df m")
      case True
      then have v: "is_value_col df (value_name m)" by (rule is_unit_col_value)
      then have "list_all is_flt (col_cells df (value_name m))"
        using nv by (simp add: numeric_values_def)
      then show ?thesis
        using True False
        by (simp add: convert_units_cells [OF wf1] convert_units_cells [OF wf]
            pair_results_again [OF wf v] comp_def)
    next
      case nu: False
      then show ?thesis
        using False by (simp add: convert_units_cells [OF wf1] convert_units_cells [OF wf])
    qed
  qed
qed

text \<open>
  C2. The converter is idempotent on the pairs it produces: a float beside a canonical unit
  token is returned as it is, the pair that a row conversion returns is returned again by a
  second conversion, and a second run over a table whose value columns are numeric returns
  the table of the first run, cell for cell. In particular \<open>(100, K)\<close> stays \<open>(100, K)\<close>.
\<close>

theorem converter_idempotent:
  "(c \<in> set canonical_units \<longrightarrow> convert_one L (Flt f) (Str c) = (Flt f, Str c))
   \<and> convert_one L (fst (convert_one L val unit)) (snd (convert_one L val unit))
        = convert_one L val unit
   \<and> (wf_table df \<and> numeric_values df \<longrightarrow>
        col_cells (convert_units_to_SI L (convert_units_to_SI L df)) m
          = col_cells (convert_units_to_SI L df) m)
   \<and> convert_one L (Flt (Fin (dbl 100))) (Str ''K'') = (Flt (Fin (dbl 100)), Str ''K'')"
proof -
  have "convert_one L (Flt (Fin (dbl 100))) (Str ''K'') = (Flt (Fin (dbl 100)), Str ''K'')"
    by (rule convert_one_canonical) (simp add: canonical_units_def)
  then show ?thesis
    by (simp add: convert_one_canonical convert_one_idem convert_units_twice)
qed

lemma kelvin_table_facts:
  "wf_table kelvin_table" "numeric_values kelvin_table"
  "col_cells kelvin_table ''t_value'' = [Flt (Fin (dbl 100))]"
  "col_cells kelvin_table ''t_unit'' = [Str ''K'']"
proof -
  show "wf_table kelvin_table"
    by (simp add: kelvin_table_def wf_table_def nrows_def)
  show "col_cells kelvin_table ''t_value'' = [Flt (Fin (dbl 100))]"
    and "col_cells kelvin_table ''t_unit'' = [Str ''K'']"
    by (simp_all add: kelvin_table_def col_cells_def)
  show "numeric_values kelvin_table"
    unfolding numeric_values_def
  proof (intro allI impI)
    fix col assume "is_value_col kelvin_table col"
    then have "col = ''t_value''"
      by (auto simp add: is_value_col_def has_col_def kelvin_table_def endswith_def)
    then show "list_all is_flt (col_cells kelvin_table col)"
      by (simp add: kelvin_table_def col_cells_def is_flt_def)
  qed
qed

theorem converter_idempotent_witness:
  "''K'' \<in> set canonical_units \<and> wf_table kelvin_table \<and> numeric_values kelvin_table
   \<and> col_cells (convert_units_to_SI ref_lib (convert_units_to_SI ref_lib kelvin_table)) ''t_value''
        = col_cells (convert_units_to_SI ref_lib kelvin_table) ''t_value''
   \<and> convert_one ref_lib (Flt (Fin (dbl 100))) (Str ''K'') = (Flt (Fin (dbl 100)), Str ''K'')"
  using converter_idempotent [of "''K''" ref_lib "Fin (dbl 100)" "Flt (Fin (dbl 100))" "Str ''K''"
      kelvin_table "''t_value''"]
  by (simp add: kelvin_table_facts canonical_units_def)

lemma unknown_unit_table_facts:
  "wf_table unknown_unit_table" "is_value_col unknown_unit_table ''d_value''"
  "nrows unknown_unit_table = 2" "unit_name ''d_value'' = ''d_unit''"
  "col_cells unknown_unit_table ''d_value'' = [Str ''abc'', Str ''7'']"
  "col_cells unknown_unit_table ''d_unit'' = [Str ''lightyear'', Str ''lightyear'']"
  by (simp_all add: unknown_unit_table_def wf_table_def nrows_def is_value_col_def endswith_def
      has_col_def unit_name_def col_cells_def)

lemma unparseable_table_facts:
  "wf_table unparseable_table" "is_value_col unparseable_table ''w_value''"
  "nrows unparseable_table = 1" "unit_name ''w_value'' = ''w_unit''"
  "col_cells unparseable_table ''w_value'' = [Str ''abc'']"
  "col_cells unparseable_table ''w_unit'' = [Str ''mm'']"
  by (simp_all add: unparseable_table_def wf_table_def nrows_def is_value_col_def endswith_def
      has_col_def unit_name_def col_cells_def)

lemma parse_decimal_examples:
  "parse_decimal ''abc'' = None" "parse_decimal ''7'' = Some (Fin (dbl 7))"
  "parse_decimal ''12.5'' = Some (Fin (dbl 12.5))" "parse_decimal ''1.25'' = Some (Fin (dbl 1.25))"
  by (simp_all add: parse_decimal_def is_digit_def nat_of_digits_def round64_small)

lemma lightyear_unknown: "''lightyear'' \<notin> set known_units"
  by (simp add: known_units_def unit_tables)

text \<open>
  C3 as stated fails: in a row whose unit token is unknown the value cell is not left as it
  was received when it is text. The text \<open>abc\<close> comes back as NaN and the text \<open>7\<close> as the
  number 7.
\<close>

theorem unknown_unit_counterexample:
  "norm_unit (py_str ref_lib (col_cells unknown_unit_table ''d_unit'' ! 0)) \<notin> set known_units
   \<and> norm_unit (py_str ref_lib (col_cells unknown_unit_table ''d_unit'' ! 1)) \<notin> set known_units
   \<and> col_cells unknown_unit_table ''d_value'' ! 0 = Str ''abc''
   \<and> col_cells (convert_units_to_SI ref_lib unknown_unit_table) ''d_value'' ! 0 = Flt NaN
   \<and> col_cells unknown_unit_table ''d_value'' ! 1 = Str ''7''
   \<and> col_cells (convert_units_to_SI ref_lib unknown_unit_table) ''d_value'' ! 1 = Flt (Fin (dbl 7))"
proof -
  have w: "wf_table unknown_unit_table" and v: "is_value_col unknown_unit_table ''d_value''"
    by (rule unknown_unit_table_facts)+
  have r0: "col_cells (convert_units_to_SI ref_lib unknown_unit_table) ''d_value'' ! 0 = Flt NaN"
    by (subst convert_units_row(1) [OF w v])
      (simp_all add: unknown_unit_table_facts convert_one_def ref_lib_def parse_decimal_examples
        num_coerce_def)
  have r1: "col_cells (convert_units_to_SI ref_lib unknown_unit_table) ''d_value'' ! 1 = Flt (Fin (dbl 7))"
    by (subst convert_units_row(1) [OF w v])
      (simp_all add: unknown_unit_table_facts convert_one_unknown norm_unit_examples
        lightyear_unknown ref_lib_def parse_decimal_examples num_coerce_def)
  show ?thesis
    using r0 r1 by (simp add: unknown_unit_table_facts norm_unit_examples lightyear_unknown)
qed

text \<open>
  C3, amended. In every row of a value/unit pair whose unit token, once normalised, is in
  none of the tables, the row conversion returns both cells as it received them; in the
  returned table the unit cell is the one received, and the value cell is the received
  cell under the final numeric coercion: itself when it is a float, as \<open>(5, lightyear)\<close>
  shows, and otherwise the number that the text parses to, or NaN.
\<close>

theorem unknown_unit_passthrough:
  assumes "wf_table df" and "is_value_col df col" and "i < nrows df"
    and "norm_unit (py_str L (col_cells df (unit_name col) ! i)) \<notin> set known_units"
  shows "convert_one L (col_cells df col ! i) (col_cells df (unit_name col) ! i)
           = (col_cells df col ! i, col_cells df (unit_name col) ! i)
       \<and> col_cells (convert_units_to_SI L df) (unit_name col) ! i
           = col_cells df (unit_name col) ! i
       \<and> col_cells (convert_units_to_SI L df) col ! i = num_coerce L (col_cells df col ! i)
       \<and> (is_flt (col_cells df col ! i) \<longrightarrow>
            col_cells (convert_units_to_SI L df) col ! i = col_cells df col ! i)
       \<and> convert_one L (Flt (Fin (dbl 5))) (Str ''lightyear'') = (Flt (Fin (dbl 5)), Str ''lightyear'')"
proof -
  have c: "convert_one L (col_cells df col ! i) (col_cells df (unit_name col) ! i)
           = (col_cells df col ! i, col_cells df (unit_name col) ! i)"
    using assms(4) by (rule convert_one_unknown)
  have e: "convert_one L (Flt (Fin (dbl 5))) (Str ''lightyear'') = (Flt (Fin (dbl 5)), Str ''lightyear'')"
    by (rule convert_one_unknown) (simp add: norm_unit_examples lightyear_unknown)
  have f: "is_flt x \<Longrightarrow> num_coerce L x = x" for x
    by (cases x) (simp_all add: is_flt_def)
  show ?thesis
    using c e f by (simp add: convert_units_row [OF assms(1-3)])
qed

lemma lightyear_table_facts:
  "wf_table lightyear_table" "is_value_col lightyear_table ''d_value''"
  "nrows lightyear_table = 1"
  "col_cells lightyear_table ''d_value'' = [Flt (Fin (dbl 5))]"
  "col_cells lightyear_table ''d_unit'' = [Str ''lightyear'']"
  by (simp_all add: lightyear_table_def wf_table_def nrows_def is_value_col_def endswith_def
      has_col_def unit_name_def col_cells_def)

theorem unknown_unit_passthrough_witness:
  "wf_table lightyear_table \<and> is_value_col lightyear_table ''d_value''
   \<and> norm_unit (py_str ref_lib (col_cells lightyear_table ''d_unit'' ! 0)) \<notin> set known_units
   \<and> col_cells (convert_units_to_SI ref_lib lightyear_table) ''d_value'' ! 0 = Flt (Fin (dbl 5))
   \<and> col_cells (convert_units_to_SI ref_lib lightyear_table) ''d_unit'' ! 0 = Str ''lightyear''"
  using unknown_unit_passthrough [of lightyear_table "''d_value''" 0 ref_lib]
  by (simp add: lightyear_table_facts unknown_unit_table_facts(4) norm_unit_examples
      lightyear_unknown is_flt_def)

text \<open>
  C4 as stated fails: a value that cannot be read as a number does not survive the
  conversion as it was received. The text \<open>abc\<close> beside the unit \<open>mm\<close> comes back as NaN,
  the missing marker.
\<close>

theorem unparseable_counterexample:
  "to_float ref_lib (col_cells unparseable_table ''w_value'' ! 0) = None
   \<and> col_cells unparseable_table ''w_value'' ! 0 = Str ''abc''
   \<and> \<not> isna (col_cells unparseable_table ''w_value'' ! 0)
   \<and> col_cells (convert_units_to_SI ref_lib unparseable_table) ''w_value'' ! 0 = Flt NaN
   \<and> isna (col_cells (convert_units_to_SI ref_lib unparseable_table) ''w_value'' ! 0)"
proof -
  have w: "wf_table unparseable_table" and v: "is_value_col unparseable_table ''w_value''"
    by (rule unparseable_table_facts)+
  have r0: "col_cells (convert_units_to_SI ref_lib unparseable_table) ''w_value'' ! 0 = Flt NaN"
    by (subst convert_units_row(1) [OF w v])
      (simp_all add: unparseable_table_facts convert_one_def ref_lib_def parse_decimal_examples
        num_coerce_def)
  show ?thesis
    using r0 by (simp add: unparseable_table_facts ref_lib_def parse_decimal_examples)
qed

text \<open>
  C4, amended. In every row of a value/unit pair whose value cannot be read as a number,
  the row conversion returns both cells as it received them and the unit cell of the
  returned table is the one received; the value cell of the returned table is the received
  cell under the final numeric coercion, which is NaN whenever \<open>to_numeric\<close> cannot parse
  the cell either.
\<close>

theorem unparseable_value_coerced:
  assumes "wf_table df" and "is_value_col df col" and "i < nrows df"
    and "to_float L (col_cells df col ! i) = None"
  shows "convert_one L (col_cells df col ! i) (col_cells df (unit_name col) ! i)
           = (col_cells df col ! i, col_cells df (unit_name col) ! i)
       \<and> col_cells (convert_units_to_SI L df) (unit_name col) ! i
           = col_cells df (unit_name col) ! i
       \<and> col_cells (convert_units_to_SI L df) col ! i = num_coerce L (col_cells df col ! i)
       \<and> (num_parse L (col_cells df col ! i) = None \<longrightarrow>
            col_cells (convert_units_to_SI L df) col ! i = Flt NaN)"
proof -
  have c: "convert_one L (col_cells df col ! i) (col_cells df (unit_name col) ! i)
           = (col_cells df col ! i, col_cells df (unit_name col) ! i)"
    using assms(4) by (rule convert_one_unparseable)
  show ?thesis
    using c by (simp add: convert_units_row [OF assms(1-3)] num_coerce_def)
qed

theorem unparseable_value_coerced_witness:
  "wf_table unparseable_table \<and> is_value_col unparseable_table ''w_value''
   \<and> to_float ref_lib (col_cells unparseable_table ''w_value'' ! 0) = None
   \<and> num_parse ref_lib (col_cells unparseable_table ''w_value'' ! 0) = None
   \<and> col_cells (convert_units_to_SI ref_lib unparseable_table) ''w_unit'' ! 0 = Str ''mm''
   \<and> col_cells (convert_units_to_SI ref_lib unparseable_table) ''w_value'' ! 0 = Flt NaN"
  using unparseable_value_coerced [of unparseable_table "''w_value''" 0 ref_lib]
  by (simp add: unparseable_table_facts ref_lib_def parse_decimal_examples num_coerce_def)

text \<open>
  C8. The converter keeps every column, in its place; a column that is not one of a
  value/unit pair comes back with every cell as it was; and the two columns of a pair come
  back as the row conversion of that pair's own two columns, whatever else the table holds.
\<close>

theorem converter_frame:
  assumes "wf_table df"
  shows "map cname (convert_units_to_SI L df) = map cname df
       \<and> (\<not> is_value_col df n \<and> \<not> is_unit_col df n \<longrightarrow>
            col_cells (convert_units_to_SI L df) n = col_cells df n)
       \<and> (is_value_col df n \<longrightarrow>
            col_cells (convert_units_to_SI L df) n
              = map (\<lambda>(v, u). num_coerce L (fst (convert_one L v u)))
                  (zip (col_cells df n) (col_cells df (unit_name n))) \<and>
            col_cells (convert_units_to_SI L df) (unit_name n)
              = map (\<lambda>(v, u). snd (convert_one L v u))
                  (zip (col_cells df n) (col_cells df (unit_name n))))"
proof -
  have a: "\<not> is_value_col df n \<and> \<not> is_unit_col df n \<longrightarrow>
            col_cells (convert_units_to_SI L df) n = col_cells df n"
    by (simp add: convert_units_cells [OF assms])
  have b: "col_cells (convert_units_to_SI L df) n
              = map (\<lambda>(v, u). num_coerce L (fst (convert_one L v u)))
                  (zip (col_cells df n) (col_cells df (unit_name n)))"
    if v: "is_value_col df n"
    using v by (simp add: convert_units_cells [OF assms] pair_results_def split_def comp_def)
  have c: "col_cells (convert_units_to_SI L df) (unit_name n)
              = map (\<lambda>(v, u). snd (convert_one L v u))
                  (zip (col_cells df n) (col_cells df (unit_name n)))"
    if v: "is_value_col df n"
  proof -
    from v have ev: "endswith n ''_value''" by (simp add: is_value_col_def)
    have u: "is_unit_col df (unit_name n)" using v by (rule is_value_col_unit)
    have nv: "\<not> is_value_col df (unit_name n)"
      using unit_name_of_value(2) [OF ev] by (simp add: is_value_col_def)
    have vn: "value_name (unit_name n) = n" using ev by (rule unit_name_of_value(3))
    show ?thesis
      using u nv vn
      by (simp add: convert_units_cells [OF assms] pair_results_def split_def comp_def)
  qed
  show ?thesis
    using a b c by (simp add: convert_units_names)
qed

lemma mixed_table_facts:
  "wf_table mixed_table" "is_value_col mixed_table ''len_value''"
  "is_value_col mixed_table ''t_value''"
  "\<not> is_value_col mixed_table ''id''" "\<not> is_unit_col mixed_table ''id''"
  "unit_name ''len_value'' = ''len_unit''" "unit_name ''t_value'' = ''t_unit''"
  "col_cells mixed_table ''id'' = [Str ''a'']"
  "col_cells mixed_table ''len_value'' = [Flt (Fin (dbl 5))]"
  "col_cells mixed_table ''len_unit'' = [Str ''km'']"
  "col_cells mixed_table ''t_value'' = [Flt (Fin (dbl 0))]"
  "col_cells mixed_table ''t_unit'' = [Str ''C'']"
  by (simp_all add: mixed_table_def wf_table_def nrows_def is_value_col_def is_unit_col_def
      endswith_def has_col_def unit_name_def col_cells_def)

lemma convert_one_km:
  "convert_one L (Flt (Fin (dbl 5))) (Str ''km'') = (Flt (Fin (dbl 5000)), Str ''m'')"
  by (simp add: convert_one_def norm_simps unit_tables round64_small)

lemma convert_one_zero_celsius:
  "convert_one L (Flt (Fin (dbl 0))) (Str ''C'') = (Flt (Fin (dbl 273.15)), Str ''K'')"
  using convert_one_celsius [of "Flt (Fin (dbl 0))" "Str ''C''" L "Fin (dbl 0)"]
    kelvin_literal kelvin_examples(1)
  by (simp add: norm_unit_examples)

theorem converter_frame_witness:
  "wf_table mixed_table
   \<and> map cname (convert_units_to_SI ref_lib mixed_table)
       = [''id'', ''len_value'', ''len_unit'', ''t_value'', ''t_unit'']
   \<and> col_cells (convert_units_to_SI ref_lib mixed_table) ''id'' = [Str ''a'']
   \<and> col_cells (convert_units_to_SI ref_lib mixed_table) ''len_value'' = [Flt (Fin (dbl 5000))]
   \<and> col_cells (convert_units_to_SI ref_lib mixed_table) ''len_unit'' = [Str ''m'']
   \<and> col_cells (convert_units_to_SI ref_lib mixed_table) ''t_value'' = [Flt (Fin (dbl 273.15))]
   \<and> col_cells (convert_units_to_SI ref_lib mixed_table) ''t_unit'' = [Str ''K'']"
  using converter_frame [of mixed_table ref_lib "''id''"]
    converter_frame [of mixed_table ref_lib "''len_value''"]
    converter_frame [of mixed_table ref_lib "''t_value''"]
  by (simp add: mixed_table_facts convert_one_km convert_one_zero_celsius)
    (simp add: mixed_table_def)

section \<open>The missing-value tagger\<close>

lemma convertible_map:
  assumes "\<And>x. is_flt (f x) = is_flt x" and "\<And>x. f x = PyNone \<longleftrightarrow> x = PyNone"
  shows "convertible (map f xs) = convertible xs"
  using assms by (simp add: convertible_def list_all_iff list_ex_iff)

lemma convertible_fixed:
  assumes "convertible xs" and "\<And>x. is_flt x \<or> x = PyNone \<Longrightarrow> f x = x"
  shows "map f xs = xs"
  using assms by (simp add: convertible_def list_all_iff map_idI)

lemma replace_cell_kind:
  "is_flt (replace_cell p x) = is_flt x" "replace_cell p x = PyNone \<longleftrightarrow> x = PyNone"
  "is_flt x \<or> x = PyNone \<Longrightarrow> replace_cell p x = x"
  by (cases x; simp add: replace_cell_def is_flt_def)+

lemma replace_regex_map: "replace_regex p df = map (replace_column p) df"
  by (simp add: replace_regex_def)

lemma fold_replace_regex: "fold replace_regex ps df = map (fold replace_column ps) df"
proof (induction ps arbitrary: df)
  case Nil
  show ?case by (simp add: map_idI)
next
  case (Cons p ps)
  have "fold replace_regex (p # ps) df = fold replace_regex ps (replace_regex p df)"
    by simp
  also have "\<dots> = map (fold replace_column ps) (replace_regex p df)"
    by (rule Cons.IH)
  also have "\<dots> = map (fold replace_column (p # ps)) df"
    by (simp add: replace_regex_map)
  finally show ?case .
qed

lemma fold_replace_column_other:
  assumes "cdtype c \<noteq> Object"
  shows "fold replace_column ps c = c"
  using assms by (induction ps) (simp_all add: replace_column_def)

lemma fold_replace_column_text:
  assumes "cdtype c = Object" and "\<not> convertible (cells c)"
  shows "fold replace_column ps c = c\<lparr>cells := map (fold replace_cell ps) (cells c)\<rparr>"
  using assms
proof (induction ps arbitrary: c)
  case Nil
  show ?case by (simp add: map_idI)
next
  case (Cons p ps)
  let ?d = "c\<lparr>cells := map (replace_cell p) (cells c)\<rparr>"
  have n: "\<not> convertible (cells ?d)"
    using Cons.prems(2) by (simp add: convertible_map replace_cell_kind)
  then have r: "replace_column p c = ?d"
    using Cons.prems(1) by (simp add: replace_column_def convert_object_def)
  have "fold replace_column (p # ps) c = fold replace_column ps ?d"
    by (simp add: r)
  also have "\<dots> = ?d\<lparr>cells := map (fold replace_cell ps) (cells ?d)\<rparr>"
    using Cons.prems(1) n by (intro Cons.IH) simp_all
  also have "\<dots> = c\<lparr>cells := map (fold replace_cell (p # ps)) (cells c)\<rparr>"
    by simp
  finally show ?case .
qed

lemma fold_replace_column_numbers:
  assumes "cdtype c = Object" and "convertible (cells c)"
  shows "fold replace_column (p # ps) c = convert_object c"
proof -
  have "map (replace_cell p) (cells c) = cells c"
    using assms(2) by (rule convertible_fixed) (simp add: replace_cell_kind)
  then have "replace_column p c = convert_object c"
    using assms(1) by (simp add: replace_column_def)
  moreover have "cdtype (convert_object c) \<noteq> Object"
    using assms by (simp add: convert_object_def)
  ultimately show ?thesis by (simp add: fold_replace_column_other)
qed

lemma fold_replace_cell:
  "fold replace_cell ps x =
     (case x of Str s \<Rightarrow> if list_ex (\<lambda>p. p s) ps then NA else Str s | _ \<Rightarrow> x)"
proof (induction ps arbitrary: x)
  case Nil
  show ?case by (cases x) simp_all
next
  case (Cons p ps)
  have "fold replace_cell (p # ps) x = fold replace_cell ps (replace_cell p x)"
    by simp
  also have "\<dots> = (case replace_cell p x of
       Str s \<Rightarrow> if list_ex (\<lambda>p. p s) ps then NA else Str s | _ \<Rightarrow> replace_cell p x)"
    by (rule Cons.IH)
  also have "\<dots> = (case x of Str s \<Rightarrow> if list_ex (\<lambda>p. p s) (p # ps) then NA else Str s
       | _ \<Rightarrow> x)"
    by (cases x) (simp_all add: replace_cell_def)
  finally show ?case .
qed

lemma py_lower_char_fix:
  assumes "d \<notin> set lower_chars"
  shows "py_lower_char c = d \<longleftrightarrow> c = d \<and> d \<notin> set upper_chars"
proof -
  have d: "distinct upper_chars" by (simp add: upper_chars_def)
  have l: "length upper_chars = length lower_chars" by (simp add: upper_chars_def lower_chars_def)
  show ?thesis
  proof (cases "map_of (zip upper_chars lower_chars) c")
    case None
    then have "c \<notin> set upper_chars" using l by (simp add: map_of_zip_is_None)
    then show ?thesis using None by (auto simp add: py_lower_char_def)
  next
    case (Some e)
    then have "(c, e) \<in> set (zip upper_chars lower_chars)" by (rule map_of_SomeD)
    then have "e \<in> set lower_chars" "c \<in> set upper_chars"
      by (auto dest: set_zip_rightD set_zip_leftD)
    then show ?thesis using Some assms by (auto simp add: py_lower_char_def)
  qed
qed

lemma py_lower_punct:
  assumes "d \<in> set ''?-.''"
  shows "py_lower s = [d] \<longleftrightarrow> s = [d]" "py_lower s = [d, CHR 0x0A] \<longleftrightarrow> s = [d, CHR 0x0A]"
proof -
  have a: "py_lower_char c = d \<longleftrightarrow> c = d" for c
    using assms by (subst py_lower_char_fix) (auto simp add: lower_chars_def upper_chars_def)
  have b: "py_lower_char c = CHR 0x0A \<longleftrightarrow> c = CHR 0x0A" for c
    by (subst py_lower_char_fix) (auto simp add: lower_chars_def upper_chars_def)
  show "py_lower s = [d] \<longleftrightarrow> s = [d]"
    by (cases s) (auto simp add: py_lower_def a)
  show "py_lower s = [d, CHR 0x0A] \<longleftrightarrow> s = [d, CHR 0x0A]"
    by (cases s; cases "tl s") (auto simp add: py_lower_def a b)
qed

lemma missing_patterns_sentinel: "list_ex (\<lambda>p. p s) missing_patterns = is_sentinel s"
  using py_lower_punct [of "CHR ''?''" s] py_lower_punct [of "CHR ''-''" s]
    py_lower_punct [of "CHR ''.''" s]
  by (auto simp add: missing_patterns_def is_sentinel_def sentinel_words_def re_blank_def
      re_literal_def)

lemma fold_missing_patterns: "fold replace_cell missing_patterns = tag_cell"
  by (auto simp add: fun_eq_iff fold_replace_cell missing_patterns_sentinel tag_cell_def
      split: cell.splits)

lemma tag_cell_kind:
  "is_flt (tag_cell x) = is_flt x" "tag_cell x = PyNone \<longleftrightarrow> x = PyNone"
  "is_flt x \<or> x = PyNone \<Longrightarrow> tag_cell x = x"
  by (cases x; simp add: tag_cell_def is_flt_def)+

lemma tag_column_cases:
  "cdtype c \<noteq> Object \<Longrightarrow> tag_column c = c"
  "cdtype c = Object \<Longrightarrow> \<not> convertible (cells c)
     \<Longrightarrow> tag_column c = c\<lparr>cells := map tag_cell (cells c)\<rparr>"
  "cdtype c = Object \<Longrightarrow> convertible (cells c)
     \<Longrightarrow> tag_column c = c\<lparr>cdtype := Float64,
                              cells := map (\<lambda>x. if x = PyNone then Flt NaN else x) (cells c)\<rparr>"
proof -
  show "cdtype c \<noteq> Object \<Longrightarrow> tag_column c = c"
    by (simp add: tag_column_def)
  show "cdtype c = Object \<Longrightarrow> \<not> convertible (cells c)
     \<Longrightarrow> tag_column c = c\<lparr>cells := map tag_cell (cells c)\<rparr>"
    by (simp add: tag_column_def convert_object_def convertible_map tag_cell_kind)
  assume o: "cdtype c = Object" and v: "convertible (cells c)"
  have "map tag_cell (cells c) = cells c"
    using v by (rule convertible_fixed) (simp add: tag_cell_kind)
  then show "tag_column c = c\<lparr>cdtype := Float64,
      cells := map (\<lambda>x. if x = PyNone then Flt NaN else x) (cells c)\<rparr>"
    using o v by (simp add: tag_column_def convert_object_def)
qed

lemma fold_replace_column_tag: "fold replace_column missing_patterns c = tag_column c"
proof (cases "cdtype c = Object")
  case False
  then show ?thesis by (simp add: fold_replace_column_other tag_column_cases)
next
  case True
  show ?thesis
  proof (cases "convertible (cells c)")
    case False
    then show ?thesis
      using True by (simp add: fold_replace_column_text fold_missing_patterns tag_column_cases)
  next
    case v: True
    obtain p ps where m: "missing_patterns = p # ps" by (simp add: missing_patterns_def)
    have "fold replace_column missing_patterns c = convert_object c"
      unfolding m using True v by (rule fold_replace_column_numbers)
    then show ?thesis
      using True v by (simp add: tag_column_cases convert_object_def)
  qed
qed

lemma normalize_missing_values_cells: "normalize_missing_values df = map tag_column df"
  by (simp add: normalize_missing_values_def fold_replace_regex fold_replace_column_tag)

lemma text_not_convertible:
  assumes "list_ex is_str xs"
  shows "\<not> convertible xs"
  using assms by (auto simp add: convertible_def list_ex_iff list_all_iff is_str_def is_flt_def
      split: cell.splits)

lemma is_space_lower [simp]: "is_space (py_lower_char c) = is_space c"
proof (cases "map_of (zip upper_chars lower_chars) c")
  case None
  then show ?thesis by (simp add: py_lower_char_def)
next
  case (Some e)
  then have "(c, e) \<in> set (zip upper_chars lower_chars)" by (rule map_of_SomeD)
  then have "e \<in> set lower_chars" "c \<in> set upper_chars"
    by (auto dest: set_zip_rightD set_zip_leftD)
  moreover have "list_all (\<lambda>c. \<not> is_space c) lower_chars"
    "list_all (\<lambda>c. \<not> is_space c) upper_chars"
    by code_simp+
  ultimately have "\<not> is_space e" "\<not> is_space c"
    by (simp_all add: list_all_iff)
  then show ?thesis using Some by (simp add: py_lower_char_def)
qed

lemma py_strip_lower: "py_strip (py_lower s) = py_lower (py_strip s)"
proof -
  have "(is_space \<circ> py_lower_char) = is_space" by (simp add: fun_eq_iff)
  then show ?thesis
    by (simp add: py_strip_def py_lower_def dropWhile_map rev_map)
qed

lemma py_strip_blank:
  assumes "list_all is_space s"
  shows "py_strip s = []"
proof -
  from assms have d: "dropWhile is_space s = []"
    by (simp add: list_all_iff dropWhile_eq_Nil_conv)
  show ?thesis by (simp only: py_strip_def d rev.simps dropWhile.simps)
qed

lemma py_strip_sentinel_words:
  assumes "w \<in> set sentinel_words"
  shows "py_strip w = w" "py_strip (w @ [CHR 0x0A]) = w"
  using assms by (auto simp add: sentinel_words_def py_strip_def is_space_def)

lemma is_sentinel_trimmed:
  assumes "is_sentinel s"
  shows "py_strip s = [] \<or> py_lower (py_strip s) \<in> set sentinel_words"
proof (cases "list_all is_space s")
  case True
  then show ?thesis by (simp add: py_strip_blank)
next
  case False
  with assms obtain w where w: "w \<in> set sentinel_words"
    and "py_lower s = w \<or> py_lower s = w @ [CHR 0x0A]"
    by (auto simp add: is_sentinel_def)
  then have "py_strip (py_lower s) = w"
    using py_strip_sentinel_words [OF w] by auto
  then show ?thesis using w by (simp add: py_strip_lower)
qed

lemma is_sentinel_of_trimmed:
  assumes "py_strip s = s" and "s = [] \<or> py_lower s \<in> set sentinel_words"
  shows "is_sentinel s"
  using assms(2) by (auto simp add: is_sentinel_def)

text \<open>
  C6 as stated fails: the tagger does not trim. The cell \<open>na\<close> between two spaces, whose
  trimmed content is a sentinel, comes back as it was.
\<close>

theorem tagger_counterexample:
  "py_lower (py_strip '' na '') \<in> set sentinel_words
   \<and> cells (padded_table ! 0) ! 0 = Str '' na ''
   \<and> cells (normalize_missing_values padded_table ! 0) ! 0 = Str '' na ''"
proof -
  have "py_lower (py_strip '' na '') \<in> set sentinel_words" "tag_cell (Str '' na '') = Str '' na ''"
    by code_simp+
  moreover have "\<not> convertible [Str '' na '', Str ''banana'']"
    by (simp add: convertible_def is_flt_def)
  ultimately show ?thesis
    by (simp add: normalize_missing_values_cells tag_column_cases padded_table_def)
qed

text \<open>
  C6, amended. The tagger tests the content of a cell as it is received. In the object
  columns it puts the missing marker in place of every string that is blank, or that is,
  in any letter case and a final newline aside, one of the sentinel words, and it leaves
  every other string as it was. So a string that carries no surrounding whitespace and
  whose content is a sentinel becomes missing, and a string becomes missing only when its
  whole trimmed content is empty or a sentinel, never on a substring. A cell that is not a
  string keeps its value, with one exception: an object column that holds floats and
  \<open>None\<close> only, a float among them, comes back as a float64 column in which \<open>None\<close> is
  NaN. A column that holds a string is never of that kind.
\<close>

theorem tagger_whole_cell:
  "normalize_missing_values df = map tag_column df
   \<and> (cdtype c \<noteq> Object \<longrightarrow> tag_column c = c)
   \<and> (cdtype c = Object \<and> \<not> convertible (cells c) \<longrightarrow>
         tag_column c = c\<lparr>cells := map tag_cell (cells c)\<rparr>)
   \<and> (cdtype c = Object \<and> convertible (cells c) \<longrightarrow>
         tag_column c = c\<lparr>cdtype := Float64,
                          cells := map (\<lambda>x. if x = PyNone then Flt NaN else x) (cells c)\<rparr>)
   \<and> (list_ex is_str (cells c) \<longrightarrow> \<not> convertible (cells c))
   \<and> (py_strip s = s \<and> (s = [] \<or> py_lower s \<in> set sentinel_words) \<longrightarrow> tag_cell (Str s) = NA)
   \<and> (list_all is_space s \<longrightarrow> tag_cell (Str s) = NA)
   \<and> (tag_cell (Str s) \<noteq> Str s \<longrightarrow>
        tag_cell (Str s) = NA \<and> (py_strip s = [] \<or> py_lower (py_strip s) \<in> set sentinel_words))
   \<and> (\<not> is_str x \<longrightarrow> tag_cell x = x)"
proof -
  have a: "py_strip s = s \<and> (s = [] \<or> py_lower s \<in> set sentinel_words) \<longrightarrow> tag_cell (Str s) = NA"
    using is_sentinel_of_trimmed [of s] by (auto simp add: tag_cell_def)
  have b: "list_all is_space s \<longrightarrow> tag_cell (Str s) = NA"
    by (simp add: tag_cell_def is_sentinel_def)
  have c: "tag_cell (Str s) \<noteq> Str s \<longrightarrow>
        tag_cell (Str s) = NA \<and> (py_strip s = [] \<or> py_lower (py_strip s) \<in> set sentinel_words)"
    using is_sentinel_trimmed [of s] by (auto simp add: tag_cell_def)
  have d: "\<not> is_str x \<longrightarrow> tag_cell x = x"
    by (cases x) (simp_all add: tag_cell_def is_str_def)
  have e: "list_ex is_str (cells c) \<longrightarrow> \<not> convertible (cells c)"
    using text_not_convertible by blast
  show ?thesis
    using a b c d e tag_column_cases [of c]
    by (simp add: normalize_missing_values_cells)
qed

theorem tagger_whole_cell_witness:
  "py_strip ''N/a'' = ''N/a'' \<and> py_lower ''N/a'' \<in> set sentinel_words
   \<and> tag_cell (Str ''N/a'') = NA
   \<and> list_all is_space '' '' \<and> tag_cell (Str '' '') = NA
   \<and> tag_cell (Str ''banana'') = Str ''banana''
   \<and> \<not> is_str (Flt (Fin (dbl 1))) \<and> tag_cell (Flt (Fin (dbl 1))) = Flt (Fin (dbl 1))
   \<and> list_ex is_str (cells (sentinel_table ! 0)) \<and> cdtype (sentinel_table ! 0) = Object
   \<and> normalize_missing_values sentinel_table
       = [\<lparr>cname = ''a'', cdtype = Object,
           cells = [NA, NA, NA, NA, NA, NA, NA, NA, NA, Str ''banana'', Flt (Fin (dbl 1))]\<rparr>]
   \<and> cdtype (numbers_table ! 0) = Object \<and> convertible (cells (numbers_table ! 0))
   \<and> cdtype (numbers_table ! 1) = Object \<and> \<not> convertible (cells (numbers_table ! 1))
   \<and> cdtype (numbers_table ! 2) \<noteq> Object
   \<and> normalize_missing_values numbers_table
       = [\<lparr>cname = ''x'', cdtype = Float64, cells = [Flt NaN, Flt PInf]\<rparr>,
          \<lparr>cname = ''y'', cdtype = Object, cells = [PyNone, PyNone]\<rparr>,
          \<lparr>cname = ''z'', cdtype = Float64, cells = [Flt NaN, Flt (Fin (dbl 1))]\<rparr>]"
proof -
  have e: "tag_cell (Str ''banana'') = Str ''banana''"
    by (simp add: tag_cell_def is_sentinel_def sentinel_words_def py_lower_def is_space_def)
  have s: "py_strip ''N/a'' = ''N/a''" "py_lower ''N/a'' \<in> set sentinel_words"
    "list_all is_space '' ''"
    by code_simp+
  have s2: "\<not> is_str (Flt (Fin (dbl 1)))" by (simp add: is_str_def)
  have t: "tag_cell (Str ''NA'') = NA" "tag_cell (Str ''N/a'') = NA"
    "tag_cell (Str ''Null'') = NA" "tag_cell (Str ''none'') = NA" "tag_cell (Str ''?'') = NA"
    "tag_cell (Str ''-'') = NA" "tag_cell (Str ''.'') = NA" "tag_cell (Str '' '') = NA"
    "tag_cell (Str []) = NA"
    by code_simp+
  have k: "list_ex is_str (cells (sentinel_table ! 0))" "cdtype (sentinel_table ! 0) = Object"
    by (simp_all add: sentinel_table_def is_str_def)
  have n: "cdtype (numbers_table ! 0) = Object" "convertible (cells (numbers_table ! 0))"
    "cdtype (numbers_table ! 1) = Object" "\<not> convertible (cells (numbers_table ! 1))"
    "cdtype (numbers_table ! 2) \<noteq> Object"
    by (simp_all add: numbers_table_def convertible_def is_flt_def)
  note N0 = tagger_whole_cell [of numbers_table "numbers_table ! 0" "''N/a''" "Flt (Fin (dbl 1))"]
  note N1 = tagger_whole_cell [of numbers_table "numbers_table ! 1" "''N/a''" "Flt (Fin (dbl 1))"]
  note N2 = tagger_whole_cell [of numbers_table "numbers_table ! 2" "''N/a''" "Flt (Fin (dbl 1))"]
  note S0 = tagger_whole_cell [of sentinel_table "sentinel_table ! 0" "'' ''" "Flt (Fin (dbl 1))"]
  have "tag_column (numbers_table ! 0) = (numbers_table ! 0)\<lparr>cdtype := Float64,
      cells := map (\<lambda>x. if x = PyNone then Flt NaN else x) (cells (numbers_table ! 0))\<rparr>"
    using N0 n(1,2) by blast
  then have n0: "tag_column (numbers_table ! 0)
      = \<lparr>cname = ''x'', cdtype = Float64, cells = [Flt NaN, Flt PInf]\<rparr>"
    by (simp add: numbers_table_def)
  have "tag_column (numbers_table ! 1)
      = (numbers_table ! 1)\<lparr>cells := map tag_cell (cells (numbers_table ! 1))\<rparr>"
    using N1 n(3,4) by blast
  then have n1: "tag_column (numbers_table ! 1)
      = \<lparr>cname = ''y'', cdtype = Object, cells = [PyNone, PyNone]\<rparr>"
    by (simp add: numbers_table_def tag_cell_def)
  have "tag_column (numbers_table ! 2) = numbers_table ! 2"
    using N2 n(5) by blast
  then have n2: "tag_column (numbers_table ! 2)
      = \<lparr>cname = ''z'', cdtype = Float64, cells = [Flt NaN, Flt (Fin (dbl 1))]\<rparr>"
    by (simp add: numbers_table_def)
  have nc: "\<not> convertible (cells (sentinel_table ! 0))"
    using S0 k(1) by blast
  have "tag_column (sentinel_table ! 0)
      = (sentinel_table ! 0)\<lparr>cells := map tag_cell (cells (sentinel_table ! 0))\<rparr>"
    using S0 k(2) nc by blast
  then have s0: "tag_column (sentinel_table ! 0)
      = \<lparr>cname = ''a'', cdtype = Object,
          cells = [NA, NA, NA, NA, NA, NA, NA, NA, NA, Str ''banana'', Flt (Fin (dbl 1))]\<rparr>"
    by (simp add: sentinel_table_def t e tag_cell_def [of "Flt (Fin (dbl 1))"])
  have "normalize_missing_values sentinel_table = map tag_column sentinel_table"
    using S0 by blast
  then have "normalize_missing_values sentinel_table = [tag_column (sentinel_table ! 0)]"
    by (simp add: sentinel_table_def)
  moreover have "normalize_missing_values numbers_table = map tag_column numbers_table"
    using N0 by blast
  then have "normalize_missing_values numbers_table
      = [tag_column (numbers_table ! 0), tag_column (numbers_table ! 1),
         tag_column (numbers_table ! 2)]"
    by (simp add: numbers_table_def)
  ultimately show ?thesis
    using e s s2 t(2,8) k n n0 n1 n2 s0 by (simp add: tag_cell_def [of "Flt (Fin (dbl 1))"])
qed

section \<open>strip\_whitespace\<close>
section \<open>strip\_whitespace\<close>

lemma unique_label_distinct:
  assumes "distinct (map cname df)" "c \<in> set df"
  shows "unique_label df (cname c)"
  using assms
proof (induction df)
  case Nil
  then show ?case by simp
next
  case (Cons a df)
  show ?case
  proof (cases "a = c")
    case True
    have "cname c \<notin> cname ` set df" using Cons.prems(1) True by simp
    then have "filter (\<lambda>x. cname x = cname c) df = []"
      unfolding filter_empty_conv by (metis imageI)
    then show ?thesis using True by (simp add: unique_label_def)
  next
    case False
    then have "c \<in> set df" using Cons.prems(2) by simp
    moreover have "cname a \<noteq> cname c" using Cons.prems(1) calculation by auto
    ultimately show ?thesis using Cons by (simp add: unique_label_def)
  qed
qed

lemma col_dtype_in:
  assumes "distinct (map cname df)" "c \<in> set df"
  shows "col_dtype df (cname c) = cdtype c"
  using assms by (induction df) (auto simp add: col_dtype_def)

lemma set_col_names [simp]:
  assumes "\<And>c. cname (f c) = cname c"
  shows "map cname (set_col n f df) = map cname df"
  using assms by (simp add: set_col_def comp_def)

lemma for_cols_map:
  assumes body: "\<And>col t c. distinct (map cname t) \<Longrightarrow> c \<in> set t \<Longrightarrow> cname c = col \<Longrightarrow> ok c
                    \<Longrightarrow> body col t = Inr (set_col col f t)"
    and name: "\<And>c. cname (f c) = cname c"
    and "distinct (map cname df)" "distinct cs" "set cs \<subseteq> set (map cname df)"
    and "\<forall>c\<in>set df. cname c \<in> set cs \<longrightarrow> ok c"
  shows "for_cols body cs df = Inr (map (\<lambda>c. if cname c \<in> set cs then f c else c) df)"
  using assms(3-6)
proof (induction cs arbitrary: df)
  case Nil
  then show ?case by (simp add: map_idI)
next
  case (Cons col cs)
  from Cons.prems(3) obtain c where c: "c \<in> set df" "cname c = col" by auto
  have okc: "ok c" using Cons.prems(4) c by simp
  have b: "body col df = Inr (set_col col f df)"
    using Cons.prems(1) c okc by (rule body)
  let ?df = "set_col col f df"
  have n: "map cname ?df = map cname df" by (rule set_col_names) (rule name)
  have ok': "\<forall>c\<in>set ?df. cname c \<in> set cs \<longrightarrow> ok c"
    using Cons.prems(2,4) by (auto simp add: set_col_def name)
  have "for_cols body cs ?df = Inr (map (\<lambda>c. if cname c \<in> set cs then f c else c) ?df)"
    using Cons.prems(1-3) ok' by (intro Cons.IH) (simp_all add: n)
  moreover have "map (\<lambda>c. if cname c \<in> set cs then f c else c) ?df
      = map (\<lambda>c. if cname c \<in> set (col # cs) then f c else c) df"
    using Cons.prems(2) by (auto simp add: set_col_def name)
  ultimately show ?case using b by simp
qed

lemma strip_body_set_col:
  assumes "distinct (map cname t)" "c \<in> set t" "cname c = col"
  shows "strip_body L col t = Inr (set_col col (strip_column L) t)"
proof -
  have u: "unique_label t col" using assms unique_label_distinct by blast
  have d: "col_dtype t col = cdtype c" using assms col_dtype_in by blast
  have eq: "x \<in> set t \<Longrightarrow> cname x = col \<Longrightarrow> x = c" for x
    using assms by (metis distinct_map inj_onD)
  have "set_col col (strip_column L) t = set_col col (astype_str_strip L) t" if "cdtype c = Object"
  proof -
    have "\<forall>x\<in>set t. (if cname x = col then strip_column L x else x)
        = (if cname x = col then astype_str_strip L x else x)"
      using that eq by (auto simp add: strip_column_def)
    then show ?thesis by (simp add: set_col_def)
  qed
  moreover have "set_col col (strip_column L) t = t" if "cdtype c \<noteq> Object"
  proof -
    have "\<forall>x\<in>set t. (if cname x = col then strip_column L x else x) = x"
      using that eq by (auto simp add: strip_column_def)
    then show ?thesis by (simp add: set_col_def map_idI)
  qed
  ultimately show ?thesis using u d by (auto simp add: strip_body_def)
qed

lemma cname_strip_column [simp]: "cname (strip_column L c) = cname c"
  by (simp add: strip_column_def astype_str_strip_def)

lemma strip_whitespace_map:
  assumes "distinct (map cname (strip_names df))"
  shows "strip_whitespace L df = Inr (map (strip_column L) (strip_names df))"
proof -
  let ?t = "strip_names df"
  have "for_cols (strip_body L) (map cname ?t) ?t
      = Inr (map (\<lambda>c. if cname c \<in> set (map cname ?t) then strip_column L c else c) ?t)"
    by (rule for_cols_map [where ok = "\<lambda>_. True"])
      (simp_all add: strip_body_set_col assms)
  moreover have "map (\<lambda>c. if cname c \<in> set (map cname ?t) then strip_column L c else c) ?t
      = map (strip_column L) ?t"
    by (rule map_cong) auto
  ultimately show ?thesis by (simp add: strip_whitespace_def Let_def)
qed

text \<open>
  Where two stripped names coincide, the loop reaches the shared label and the stage
  raises.
\<close>

lemma unique_label_names:
  "unique_label df col = (length (filter (\<lambda>n. n = col) (map cname df)) = 1)"
  by (simp add: unique_label_def filter_map comp_def)

lemma strip_body_names:
  assumes "strip_body L col df = Inr df'"
  shows "map cname df' = map cname df"
  using assms
  by (auto simp add: strip_body_def set_col_def astype_str_strip_def comp_def
           split: if_splits)

lemma for_cols_strip_duplicate:
  assumes "col \<in> set cols" and "\<not> unique_label df col"
  shows "for_cols (strip_body L) cols df = Inl AttributeError"
  using assms
proof (induction cols arbitrary: df)
  case Nil
  then show ?case by simp
next
  case (Cons c cols)
  show ?case
  proof (cases "strip_body L c df")
    case (Inl e)
    then show ?thesis by (cases e) simp
  next
    case (Inr df')
    have n: "map cname df' = map cname df" using Inr by (rule strip_body_names)
    have u: "\<not> unique_label df' col" using Cons.prems(2) by (simp add: unique_label_names n)
    have "c \<noteq> col" using Inr Cons.prems(2) by (auto simp add: strip_body_def)
    then have "col \<in> set cols" using Cons.prems(1) by simp
    then show ?thesis using Cons.IH u Inr by simp
  qed
qed

lemma duplicate_label:
  assumes "\<not> distinct (map cname df)"
  shows "\<exists>col \<in> set (map cname df). \<not> unique_label df col"
proof -
  obtain xs ys zs y where d: "map cname df = xs @ [y] @ ys @ [y] @ zs"
    using assms not_distinct_decomp by blast
  have "2 \<le> length (filter (\<lambda>n. n = y) (map cname df))" by (simp add: d)
  then have "\<not> unique_label df y" by (simp add: unique_label_names)
  moreover have "y \<in> set (map cname df)" by (simp add: d)
  ultimately show ?thesis by blast
qed

lemma strip_whitespace_duplicate:
  assumes "\<not> distinct (map cname (strip_names df))"
  shows "strip_whitespace L df = Inl AttributeError"
proof -
  obtain col where "col \<in> set (map cname (strip_names df))"
      and "\<not> unique_label (strip_names df) col"
    using duplicate_label [OF assms] by blast
  then show ?thesis by (simp add: strip_whitespace_def Let_def for_cols_strip_duplicate)
qed

lemma py_str_missing:
  assumes "isna x"
  shows "py_str L x \<in> {''<NA>'', ''None'', ''nan''}" "py_strip (py_str L x) = py_str L x"
proof -
  have s: "py_strip ''<NA>'' = ''<NA>''" "py_strip ''None'' = ''None''" "py_strip ''nan'' = ''nan''"
    by code_simp+
  from assms consider "x = NA" | "x = PyNone" | "x = Flt NaN"
    by (cases x rule: isna.cases) simp_all
  then show "py_str L x \<in> {''<NA>'', ''None'', ''nan''}"
    by cases simp_all
  from assms consider "x = NA" | "x = PyNone" | "x = Flt NaN"
    by (cases x rule: isna.cases) simp_all
  then show "py_strip (py_str L x) = py_str L x"
    by cases (simp_all add: s)
qed

text \<open>
  C10. Where the stripped column names are distinct, strip\_whitespace returns the table
  whose text columns hold the stripped string form of every cell. A missing cell of a
  text column comes back as a string that is not missing: \<open><NA>\<close>, \<open>None\<close> or \<open>nan\<close>,
  the string form of the marker.
\<close>

theorem strip_whitespace_loses_missing:
  assumes "distinct (map cname (strip_names df))"
  shows "strip_whitespace L df = Inr (map (strip_column L) (strip_names df))
       \<and> (cdtype c = Object \<and> i < length (cells c) \<and> isna (cells c ! i) \<longrightarrow>
            cells (strip_column L c) ! i = Str (py_str L (cells c ! i))
            \<and> \<not> isna (cells (strip_column L c) ! i)
            \<and> py_str L (cells c ! i) \<in> {''<NA>'', ''None'', ''nan''})"
  using assms py_str_missing [of "cells c ! i" L]
  by (simp add: strip_whitespace_map strip_column_def astype_str_strip_def)

theorem strip_whitespace_loses_missing_witness:
  "distinct (map cname (strip_names missing_table))
   \<and> strip_whitespace ref_lib missing_table
       = Inr [\<lparr>cname = ''a'', cdtype = Object,
                cells = [Str ''x'', Str ''<NA>'', Str ''nan'', Str ''None'']\<rparr>,
              \<lparr>cname = ''n'', cdtype = Float64,
                cells = [Flt (Fin (dbl 1)), Flt NaN, Flt NaN, Flt NaN]\<rparr>]
   \<and> isna NA \<and> \<not> isna (Str ''<NA>'')"
proof -
  have s: "py_strip '' a '' = ''a''" "py_strip ''n'' = ''n''" "py_strip '' x '' = ''x''"
    "py_strip ''<NA>'' = ''<NA>''" "py_strip ''None'' = ''None''" "py_strip ''nan'' = ''nan''"
    by code_simp+
  have d: "distinct (map cname (strip_names missing_table))"
    by (simp add: strip_names_def missing_table_def s)
  show ?thesis
    using strip_whitespace_loses_missing [OF d, of ref_lib "hd missing_table" 1] d
    by (simp add: strip_names_def missing_table_def s strip_column_def astype_str_strip_def)
qed

section \<open>fix\_decimal\_commas\<close>

lemma length_fix_from [simp]: "length (fix_from p s) = length s"
  by (induction s arbitrary: p) simp_all

lemma fix_from_nth:
  assumes "i < length s"
  shows "fix_from p s ! i =
     (if s ! i = CHR '','' \<and>
         (if i = 0 then (case p of Some d \<Rightarrow> is_digit d | None \<Rightarrow> False)
          else is_digit (s ! (i - 1))) \<and>
         Suc i < length s \<and> is_digit (s ! Suc i)
      then CHR ''.'' else s ! i)"
  using assms
proof (induction s arbitrary: p i)
  case Nil
  then show ?case by simp
next
  case (Cons c cs)
  show ?case
  proof (cases i)
    case 0
    then show ?thesis by (cases cs) auto
  next
    case (Suc j)
    then have j: "j < length cs" using Cons.prems by simp
    show ?thesis
      using Suc Cons.IH [OF j, of "Some c"] by (cases j) auto
  qed
qed

lemma fix_commas_nth:
  assumes "i < length s"
  shows "fix_commas s ! i = (if flanked s i then CHR ''.'' else s ! i)"
  using fix_from_nth [OF assms, of None] by (auto simp add: fix_commas_def flanked_def)

lemma cname_fix_column [simp]: "cname (fix_column L c) = cname c"
  by (simp add: fix_column_def to_numeric_ignore_def str_replace_commas_def)

lemma text_cells_accessor:
  assumes "text_cells xs"
  shows "str_accessor_ok xs"
proof (cases "list_ex is_str xs")
  case True
  then show ?thesis by (simp add: str_accessor_ok_def)
next
  case False
  then have "\<forall>x\<in>set xs. \<not> is_str x" by (simp add: list_ex_iff)
  with assms have "list_all isna xs" by (auto simp add: text_cells_def list_all_iff)
  then show ?thesis by (simp add: str_accessor_ok_def)
qed

lemma fix_body_set_col:
  assumes "distinct (map cname t)" "c \<in> set t" "cname c = col"
    and ok: "cdtype c = Object \<longrightarrow> text_cells (cells c)"
  shows "fix_body L col t = Inr (set_col col (fix_column L) t)"
proof -
  have d: "col_dtype t col = cdtype c" using assms col_dtype_in by blast
  have cc: "col_cells t col = cells c" using assms col_cells_in by blast
  have eq: "x \<in> set t \<Longrightarrow> cname x = col \<Longrightarrow> x = c" for x
    using assms by (metis distinct_map inj_onD)
  show ?thesis
  proof (cases "cdtype c = Object")
    case True
    have "\<forall>x\<in>set t. (if cname x = col then fix_column L x else x)
        = (if cname x = col then to_numeric_ignore L (str_replace_commas x) else x)"
      using True eq by (auto simp add: fix_column_def)
    then have "set_col col (fix_column L) t
        = set_col col (\<lambda>c. to_numeric_ignore L (str_replace_commas c)) t"
      by (simp add: set_col_def)
    moreover have "str_accessor_ok (cells c)" using ok True by (simp add: text_cells_accessor)
    ultimately show ?thesis using True d cc by (simp add: fix_body_def)
  next
    case False
    have "\<forall>x\<in>set t. (if cname x = col then fix_column L x else x) = x"
      using False eq by (auto simp add: fix_column_def)
    then have "set_col col (fix_column L) t = t" by (simp add: set_col_def map_idI)
    then show ?thesis using False d by (simp add: fix_body_def)
  qed
qed

lemma fix_decimal_commas_map:
  assumes "distinct (map cname df)" "text_table df"
  shows "fix_decimal_commas L df = Inr (map (fix_column L) df)"
proof -
  have "for_cols (fix_body L) (map cname df) df
      = Inr (map (\<lambda>c. if cname c \<in> set (map cname df) then fix_column L c else c) df)"
    using assms
    by (intro for_cols_map [where ok = "\<lambda>c. cdtype c = Object \<longrightarrow> text_cells (cells c)"])
      (simp_all add: fix_body_set_col text_table_def list_all_iff)
  moreover have "map (\<lambda>c. if cname c \<in> set (map cname df) then fix_column L c else c) df
      = map (fix_column L) df"
    by (rule map_cong) auto
  ultimately show ?thesis by (simp add: fix_decimal_commas_def)
qed

lemma repair_cell_text:
  "repair_cell (Str s) = Str (fix_commas s)" "isna x \<Longrightarrow> repair_cell x = x"
  by (cases x rule: isna.cases; simp add: repair_cell_def)+

lemma fix_commas_examples:
  "fix_commas ''1,25'' = ''1.25''" "fix_commas ''1,234'' = ''1.234''"
  "fix_commas ''a,b'' = ''a,b''" "fix_commas '',5'' = '',5''" "fix_commas ''abc'' = ''abc''"
  "fix_commas ''3'' = ''3''" "fix_commas ''0,5'' = ''0.5''" "fix_commas ''10'' = ''10''"
  "flanked ''1,25'' 1" "\<not> flanked ''a,b'' 1"
  by code_simp+

lemma parse_decimal_repaired:
  "parse_decimal ''1.234'' = Some (Fin (dbl 1.234))" "parse_decimal ''a,b'' = None"
  "parse_decimal ''3'' = Some (Fin (dbl 3))" "parse_decimal ''0.5'' = Some (Fin (dbl 0.5))"
  "parse_decimal ''10'' = Some (Fin (dbl 10))"
  by (simp_all add: parse_decimal_def is_digit_def nat_of_digits_def round64_small)

text \<open>
  C7 as stated fails: the re-typing is not by value. In a column that holds \<open>1,25\<close> beside
  a text that is no number, the repaired \<open>1.25\<close> comes back as text and not as the
  floating-point number 1.25.
\<close>

theorem decimal_repair_counterexample:
  "wf_table mixed_decimal_table
   \<and> mixed_decimal_table
       = [\<lparr>cname = ''a'', cdtype = Object, cells = [Str ''1,25'', Str ''abc'']\<rparr>]
   \<and> fix_decimal_commas ref_lib mixed_decimal_table
       = Inr [\<lparr>cname = ''a'', cdtype = Object, cells = [Str ''1.25'', Str ''abc'']\<rparr>]
   \<and> Str ''1.25'' \<noteq> Flt (Fin (dbl 1.25))"
proof -
  have d: "distinct (map cname mixed_decimal_table)" by (simp add: mixed_decimal_table_def)
  have t: "text_table mixed_decimal_table"
    by (simp add: mixed_decimal_table_def text_table_def text_cells_def is_str_def)
  have w: "wf_table mixed_decimal_table"
    by (simp add: mixed_decimal_table_def wf_table_def nrows_def)
  have a: "fix_column ref_lib \<lparr>cname = ''a'', cdtype = Object, cells = [Str ''1,25'', Str ''abc'']\<rparr>
      = \<lparr>cname = ''a'', cdtype = Object, cells = [Str ''1.25'', Str ''abc'']\<rparr>"
    by (simp add: fix_column_def to_numeric_ignore_def str_replace_commas_def repair_cell_def
        fix_commas_examples ref_lib_def parse_decimal_examples)
  have "fix_decimal_commas ref_lib mixed_decimal_table
      = Inr (map (fix_column ref_lib) mixed_decimal_table)"
    using d t by (rule fix_decimal_commas_map)
  then show ?thesis
    using w by (simp add: mixed_decimal_table_def a)
qed

text \<open>
  C7, amended. On a table whose text columns hold strings and missing cells, the repairer
  never fails. In a string it writes a point at exactly the commas that stand between two
  digits and keeps every other character, and it keeps a missing cell. The re-typing is
  of the column as a whole: a text column comes back as numbers when every repaired cell
  parses as a number, and as the repaired text, numeric-looking values among it, otherwise;
  a column that is not text comes back as it was. In particular a column of \<open>1,25\<close> and
  other numerals comes back with the number 1.25.
\<close>

theorem decimal_repair:
  assumes "distinct (map cname df)" and "text_table df"
  shows "fix_decimal_commas L df = Inr (map (fix_column L) df)
       \<and> (cdtype c \<noteq> Object \<longrightarrow> fix_column L c = c)
       \<and> (cdtype c = Object \<longrightarrow>
            fix_column L c =
              (if list_all (\<lambda>x. num_parse L x \<noteq> None) (map repair_cell (cells c))
               then c\<lparr>cdtype := Float64, cells := map (num_coerce L) (map repair_cell (cells c))\<rparr>
               else c\<lparr>cdtype := Object, cells := map repair_cell (cells c)\<rparr>))
       \<and> repair_cell (Str s) = Str (fix_commas s)
       \<and> (isna x \<longrightarrow> repair_cell x = x)
       \<and> length (fix_commas s) = length s
       \<and> (i < length s \<longrightarrow> fix_commas s ! i = (if flanked s i then CHR ''.'' else s ! i))"
  using assms fix_commas_nth [of i s] repair_cell_text(1) [of s] repair_cell_text(2) [of x]
  by (simp add: fix_decimal_commas_map fix_column_def to_numeric_ignore_def
      str_replace_commas_def fix_commas_def)

theorem decimal_repair_witness:
  "wf_table decimal_table \<and> distinct (map cname decimal_table) \<and> text_table decimal_table
   \<and> fix_decimal_commas ref_lib decimal_table
       = Inr [\<lparr>cname = ''a'', cdtype = Float64,
                cells = [Flt (Fin (dbl 1.25)), Flt (Fin (dbl 3)), Flt (Fin (dbl 0.5)),
                         Flt (Fin (dbl 10))]\<rparr>,
              \<lparr>cname = ''b'', cdtype = Object,
                cells = [Str ''1.234'', Str ''a,b'', Str '',5'', NA]\<rparr>,
              \<lparr>cname = ''n'', cdtype = Float64,
                cells = [Flt (Fin (dbl 2)), Flt NaN, Flt (Fin (dbl 1)), Flt (Fin (dbl 1))]\<rparr>]
   \<and> fix_commas ''1,25'' = ''1.25'' \<and> flanked ''1,25'' 1 \<and> \<not> flanked ''a,b'' 1"
proof -
  have d: "distinct (map cname decimal_table)" by (simp add: decimal_table_def)
  have t: "text_table decimal_table"
    by (simp add: decimal_table_def text_table_def text_cells_def is_str_def)
  have w: "wf_table decimal_table"
    by (simp add: decimal_table_def wf_table_def nrows_def)
  have a: "fix_column ref_lib
        \<lparr>cname = ''a'', cdtype = Object, cells = [Str ''1,25'', Str ''3'', Str ''0,5'', Str ''10'']\<rparr>
      = \<lparr>cname = ''a'', cdtype = Float64,
          cells = [Flt (Fin (dbl 1.25)), Flt (Fin (dbl 3)), Flt (Fin (dbl 0.5)),
                   Flt (Fin (dbl 10))]\<rparr>"
    by (simp add: fix_column_def to_numeric_ignore_def str_replace_commas_def repair_cell_def
        fix_commas_examples ref_lib_def parse_decimal_examples parse_decimal_repaired
        num_coerce_def)
  have b: "fix_column ref_lib
        \<lparr>cname = ''b'', cdtype = Object, cells = [Str ''1,234'', Str ''a,b'', Str '',5'', NA]\<rparr>
      = \<lparr>cname = ''b'', cdtype = Object, cells = [Str ''1.234'', Str ''a,b'', Str '',5'', NA]\<rparr>"
    by (simp add: fix_column_def to_numeric_ignore_def str_replace_commas_def repair_cell_def
        fix_commas_examples ref_lib_def parse_decimal_repaired)
  have n: "fix_column ref_lib \<lparr>cname = ''n'', cdtype = Float64,
        cells = [Flt (Fin (dbl 2)), Flt NaN, Flt (Fin (dbl 1)), Flt (Fin (dbl 1))]\<rparr>
      = \<lparr>cname = ''n'', cdtype = Float64,
          cells = [Flt (Fin (dbl 2)), Flt NaN, Flt (Fin (dbl 1)), Flt (Fin (dbl 1))]\<rparr>"
    by (simp add: fix_column_def)
  have "fix_decimal_commas ref_lib decimal_table = Inr (map (fix_column ref_lib) decimal_table)"
    using decimal_repair [OF d t, of ref_lib] by simp
  then show ?thesis
    using d t w fix_commas_examples by (simp add: decimal_table_def a b n)
qed

section \<open>extract\_numeric\_and\_unit: lemmas\<close>
section \<open>extract\_numeric\_and\_unit: lemmas\<close>

lemma value_neq_unit_name: "a @ ''_value'' \<noteq> b @ ''_unit''"
proof
  assume "a @ ''_value'' = b @ ''_unit''"
  then have "last (a @ ''_value'') = last (b @ ''_unit'')" by simp
  then show False by simp
qed

lemma unit_neq_value_name: "a @ ''_unit'' \<noteq> b @ ''_value''"
  using value_neq_unit_name [of b a] by metis

lemma new_cols_names:
  assumes "n \<in> set (map cname (new_cols L cs))"
  shows "\<exists>x\<in>set cs. promoted L x \<and> (n = cname x @ ''_value'' \<or> n = cname x @ ''_unit'')"
  using assms by (auto simp add: new_cols_def extract_column_def split: if_splits)

lemma new_cols_append [simp]: "new_cols L (xs @ ys) = new_cols L xs @ new_cols L ys"
  by (simp add: new_cols_def)

lemma order_of_append [simp]: "order_of L (xs @ ys) = order_of L xs @ order_of L ys"
  by (simp add: order_of_def)

lemma find_app:
  "find P (xs @ ys) = (case find P xs of None \<Rightarrow> find P ys | Some x \<Rightarrow> Some x)"
  by (induction xs) simp_all

lemma find_append_in:
  assumes "distinct (map cname df)" "c \<in> set df"
  shows "find (\<lambda>x. cname x = cname c) (df @ N) = Some c"
proof -
  have "find (\<lambda>x. cname x = cname c) df = Some c"
    using assms by (induction df) auto
  then show ?thesis by (simp add: find_app)
qed

lemma extract_step_promoted:
  assumes d: "distinct (map cname df)" and c: "c \<in> set df" and p: "promoted L c"
    and nv: "\<not> has_col (df @ N) (cname c @ ''_value'')"
    and nu: "\<not> has_col (df @ N) (cname c @ ''_unit'')"
  shows "extract_step L (cname c) (df @ N, order)
           = (df @ N @ extract_column L c, order @ map cname (extract_column L c))"
proof -
  have f: "find (\<lambda>x. cname x = cname c) (df @ N) = Some c" using d c by (rule find_append_in)
  have cc: "col_cells (df @ N) (cname c) = cells c" using f by (simp add: col_cells_def)
  have dt: "col_dtype (df @ N) (cname c) = cdtype c" using f by (simp add: col_dtype_def)
  have cond: "col_dtype (df @ N) (cname c) = Object \<and>
      list_ex (\<lambda>m. m \<noteq> None) (map (extract_cell L) (col_cells (df @ N) (cname c)))"
    using p by (simp add: cc dt promoted_def list_ex_iff)
  have nu': "\<not> has_col (df @ N @ [x]) (cname c @ ''_unit'')" if "cname x = cname c @ ''_value''" for x
    using nu that unit_neq_value_name [of "cname c" "cname c"] by (auto simp add: has_col_def)
  show ?thesis
    using cond nv p
    by (simp add: extract_step_def Let_def cc assign_col_def nu' extract_column_def comp_def)
qed

lemma extract_step_kept:
  assumes d: "distinct (map cname df)" and c: "c \<in> set df" and p: "\<not> promoted L c"
  shows "extract_step L (cname c) (df @ N, order)
           = (df @ N, order @ map cname (extract_column L c))"
proof -
  have f: "find (\<lambda>x. cname x = cname c) (df @ N) = Some c" using d c by (rule find_append_in)
  have cc: "col_cells (df @ N) (cname c) = cells c" using f by (simp add: col_cells_def)
  have dt: "col_dtype (df @ N) (cname c) = cdtype c" using f by (simp add: col_dtype_def)
  have cond: "\<not> (col_dtype (df @ N) (cname c) = Object \<and>
      list_ex (\<lambda>m. m \<noteq> None) (map (extract_cell L) (col_cells (df @ N) (cname c))))"
    using p by (simp add: cc dt promoted_def list_ex_iff)
  show ?thesis
    using cond p by (simp add: extract_step_def Let_def extract_column_def)
qed

lemma extract_step_any:
  assumes d: "distinct (map cname df)" and c: "c \<in> set df" and nc: "no_clash L df"
    and ps: "cname c \<notin> cname ` set ps"
  shows "extract_step L (cname c) (df @ new_cols L ps, order_of L ps)
           = (df @ new_cols L (ps @ [c]), order_of L (ps @ [c]))"
proof (cases "promoted L c")
  case False
  then show ?thesis
    using extract_step_kept [OF d c False, of "new_cols L ps" "order_of L ps"]
    by (simp add: new_cols_def order_of_def)
next
  case True
  have nd: "\<not> has_col df (cname c @ ''_value'')" "\<not> has_col df (cname c @ ''_unit'')"
    using nc c True by (auto simp add: no_clash_def list_all_iff)
  have nn: "cname c @ s \<notin> set (map cname (new_cols L ps))" if "s = ''_value'' \<or> s = ''_unit''" for s
  proof
    assume "cname c @ s \<in> set (map cname (new_cols L ps))"
    then obtain x where x: "x \<in> set ps"
      and "cname c @ s = cname x @ ''_value'' \<or> cname c @ s = cname x @ ''_unit''"
      using new_cols_names by blast
    then have "cname c = cname x"
      using that value_neq_unit_name unit_neq_value_name by auto
    then show False using ps x by auto
  qed
  have nv: "\<not> has_col (df @ new_cols L ps) (cname c @ ''_value'')"
    using nd(1) nn [of "''_value''"] by (simp add: has_col_def)
  have nu: "\<not> has_col (df @ new_cols L ps) (cname c @ ''_unit'')"
    using nd(2) nn [of "''_unit''"] by (simp add: has_col_def)
  show ?thesis
    using extract_step_promoted [OF d c True nv nu, of "order_of L ps"] True
    by (simp add: new_cols_def order_of_def)
qed

lemma fold_extract_step:
  assumes d: "distinct (map cname df)" and nc: "no_clash L df"
    and "set cs \<subseteq> set df" "distinct (map cname (ps @ cs))"
  shows "fold (extract_step L) (map cname cs) (df @ new_cols L ps, order_of L ps)
           = (df @ new_cols L (ps @ cs), order_of L (ps @ cs))"
  using assms(3,4)
proof (induction cs arbitrary: ps)
  case Nil
  then show ?case by simp
next
  case (Cons c cs)
  have c: "c \<in> set df" using Cons.prems(1) by simp
  have ps: "cname c \<notin> cname ` set ps" using Cons.prems(2) by auto
  have s: "extract_step L (cname c) (df @ new_cols L ps, order_of L ps)
           = (df @ new_cols L (ps @ [c]), order_of L (ps @ [c]))"
    using d c nc ps by (rule extract_step_any)
  have "fold (extract_step L) (map cname cs) (df @ new_cols L (ps @ [c]), order_of L (ps @ [c]))
      = (df @ new_cols L ((ps @ [c]) @ cs), order_of L ((ps @ [c]) @ cs))"
    using Cons.prems by (intro Cons.IH) simp_all
  then show ?case by (simp add: s)
qed

lemma distinct_new_cols:
  assumes "distinct (map cname cs)"
  shows "distinct (map cname (new_cols L cs))"
  using assms
proof (induction cs)
  case Nil
  show ?case by (simp add: new_cols_def)
next
  case (Cons c cs)
  have ih: "distinct (map cname (new_cols L cs))" using Cons by simp
  have nn: "cname c @ s \<notin> set (map cname (new_cols L cs))" if "s = ''_value'' \<or> s = ''_unit''" for s
  proof
    assume "cname c @ s \<in> set (map cname (new_cols L cs))"
    then obtain x where x: "x \<in> set cs"
      and "cname c @ s = cname x @ ''_value'' \<or> cname c @ s = cname x @ ''_unit''"
      using new_cols_names by blast
    then have "cname c = cname x"
      using that value_neq_unit_name unit_neq_value_name by auto
    then show False using Cons.prems x by auto
  qed
  have "new_cols L (c # cs) = (if promoted L c then extract_column L c else []) @ new_cols L cs"
    by (simp add: new_cols_def)
  then show ?case
    using ih nn [of "''_value''"] nn [of "''_unit''"] value_neq_unit_name [of "cname c" "cname c"]
    by (auto simp add: extract_column_def)
qed

lemma distinct_extracted:
  assumes d: "distinct (map cname df)" and nc: "no_clash L df"
  shows "distinct (map cname (df @ new_cols L df))"
proof -
  have "set (map cname df) \<inter> set (map cname (new_cols L df)) = {}"
  proof (rule ccontr)
    assume "set (map cname df) \<inter> set (map cname (new_cols L df)) \<noteq> {}"
    then obtain n where n: "n \<in> set (map cname df)" "n \<in> set (map cname (new_cols L df))"
      by blast
    from n(2) obtain x where x: "x \<in> set df" "promoted L x"
      and e: "n = cname x @ ''_value'' \<or> n = cname x @ ''_unit''"
      using new_cols_names by blast
    have "\<not> has_col df (cname x @ ''_value'')" "\<not> has_col df (cname x @ ''_unit'')"
      using nc x by (auto simp add: no_clash_def list_all_iff)
    then show False using n(1) e unfolding has_col_def by blast
  qed
  then show ?thesis using d distinct_new_cols [OF d, of L] by simp
qed

lemma filter_name_distinct:
  assumes "distinct (map cname t)" "y \<in> set t"
  shows "filter (\<lambda>x. cname x = cname y) t = [y]"
  using assms
proof (induction t)
  case Nil
  then show ?case by simp
next
  case (Cons a t)
  show ?case
  proof (cases "a = y")
    case True
    have "cname y \<notin> cname ` set t" using Cons.prems(1) True by simp
    then have "filter (\<lambda>x. cname x = cname y) t = []"
      unfolding filter_empty_conv by (metis imageI)
    then show ?thesis using True by simp
  next
    case False
    then have y: "y \<in> set t" using Cons.prems(2) by simp
    then have "cname a \<noteq> cname y" using Cons.prems(1) by auto
    then show ?thesis using Cons y by simp
  qed
qed

lemma select_cols_append [simp]:
  "select_cols t (xs @ ys) = select_cols t xs @ select_cols t ys"
  by (simp add: select_cols_def)

lemma select_cols_present:
  assumes "distinct (map cname t)" "set ys \<subseteq> set t"
  shows "select_cols t (map cname ys) = ys"
  using assms(2)
proof (induction ys)
  case Nil
  show ?case by (simp add: select_cols_def)
next
  case (Cons y ys)
  have "filter (\<lambda>x. cname x = cname y) t = [y]"
    using assms(1) Cons.prems by (intro filter_name_distinct) simp_all
  moreover have "select_cols t (map cname ys) = ys" using Cons by simp
  ultimately show ?case by (simp add: select_cols_def)
qed

lemma extract_column_present:
  assumes "c \<in> set df"
  shows "set (extract_column L c) \<subseteq> set (df @ new_cols L df)"
proof (cases "promoted L c")
  case True
  then have "set (extract_column L c) \<subseteq> set (new_cols L df)"
    using assms by (auto simp add: new_cols_def)
  then show ?thesis by auto
next
  case False
  then show ?thesis using assms by (simp add: extract_column_def)
qed

lemma select_order_of:
  assumes "distinct (map cname t)" "\<forall>c\<in>set cs. set (extract_column L c) \<subseteq> set t"
  shows "select_cols t (order_of L cs) = concat (map (extract_column L) cs)"
  using assms(2)
proof (induction cs)
  case Nil
  show ?case by (simp add: order_of_def select_cols_def)
next
  case (Cons c cs)
  have "select_cols t (map cname (extract_column L c)) = extract_column L c"
    using assms(1) Cons.prems by (intro select_cols_present) simp_all
  moreover have "select_cols t (order_of L cs) = concat (map (extract_column L) cs)"
    using Cons by simp
  moreover have "order_of L (c # cs) = map cname (extract_column L c) @ order_of L cs"
    by (simp add: order_of_def)
  ultimately show ?case by simp
qed

lemma extract_numeric_and_unit_columns:
  assumes d: "distinct (map cname df)" and nc: "no_clash L df"
  shows "extract_numeric_and_unit L df = concat (map (extract_column L) df)"
proof -
  have "fold (extract_step L) (map cname df) (df @ new_cols L [], order_of L [])
      = (df @ new_cols L ([] @ df), order_of L ([] @ df))"
    using d nc by (intro fold_extract_step) simp_all
  then have f: "fold (extract_step L) (map cname df) (df, [])
      = (df @ new_cols L df, order_of L df)"
    by (simp add: new_cols_def order_of_def)
  have "select_cols (df @ new_cols L df) (order_of L df) = concat (map (extract_column L) df)"
    using distinct_extracted [OF d nc] extract_column_present [of _ df L]
    by (intro select_order_of) auto
  then show ?thesis by (simp add: extract_numeric_and_unit_def f)
qed

lemma match_examples:
  "match_pattern ''12.5 mm'' = Some (''12.5'', ''mm'')"
  "match_pattern ''3,5kg'' = Some (''3,5'', ''kg'')"
  "match_pattern ''1.5 mm'' = Some (''1.5'', ''mm'')"
  "match_pattern ''<NA>'' = None" "match_pattern ''None'' = None" "match_pattern ''nan'' = None"
  "match_pattern ''x'' = None" "match_pattern ''y'' = None" "match_pattern ''12'' = None"
  by code_simp+

lemma extract_cell_missing:
  assumes "isna x"
  shows "extract_cell L x = None"
proof -
  from assms consider "x = NA" | "x = PyNone" | "x = Flt NaN"
    by (cases x rule: isna.cases) simp_all
  then show ?thesis by cases (simp_all add: extract_cell_def match_examples)
qed

lemma comma_examples:
  "py_replace_char (CHR '','') ''.'' ''12.5'' = ''12.5''"
  "py_replace_char (CHR '','') ''.'' ''3,5'' = ''3.5''"
  "py_replace_char (CHR '','') ''.'' ''1.5'' = ''1.5''"
  by code_simp+

lemma parse_more:
  "parse_decimal ''3.5'' = Some (Fin (dbl 3.5))" "parse_decimal ''1.5'' = Some (Fin (dbl 1.5))"
  by (simp_all add: parse_decimal_def is_digit_def nat_of_digits_def round64_small)

lemma span_app:
  assumes "list_all P xs" "ys = [] \<or> \<not> P (hd ys)"
  shows "takeWhile P (xs @ ys) = xs" "dropWhile P (xs @ ys) = ys"
proof -
  have t: "takeWhile P ys = []" and d: "dropWhile P ys = ys"
    using assms(2) by (cases ys; simp)+
  show "takeWhile P (xs @ ys) = xs" "dropWhile P (xs @ ys) = ys"
    using assms(1) t d by (simp_all add: list_all_iff takeWhile_append2 dropWhile_append2)
qed

lemma class_digit:
  assumes "is_digit c"
  shows "\<not> is_space c" "\<not> is_unit_char c" "c \<noteq> CHR ''.''" "c \<noteq> CHR '',''"
proof -
  have la: "list_all (\<lambda>c. \<not> is_space c \<and> \<not> is_unit_char c \<and> c \<noteq> CHR ''.'' \<and> c \<noteq> CHR '','')
          ''0123456789''"
    by code_simp
  have m: "c \<in> set (''0123456789'')"
    using assms unfolding is_digit_def .
  from la m have "\<not> is_space c \<and> \<not> is_unit_char c \<and> c \<noteq> CHR ''.'' \<and> c \<noteq> CHR '',''"
    unfolding list_all_iff by (rule bspec)
  then show "\<not> is_space c" "\<not> is_unit_char c" "c \<noteq> CHR ''.''" "c \<noteq> CHR '',''"
    by simp_all
qed

lemma class_space:
  assumes "is_space c"
  shows "\<not> is_digit c" "\<not> is_unit_char c" "c \<noteq> CHR ''.''" "c \<noteq> CHR '',''"
proof -
  have la: "list_all (\<lambda>c. \<not> is_digit c \<and> \<not> is_unit_char c \<and> c \<noteq> CHR ''.'' \<and> c \<noteq> CHR '','')
          [CHR 0x09, CHR 0x0A, CHR 0x0B, CHR 0x0C, CHR 0x0D, CHR 0x1C, CHR 0x1D,
           CHR 0x1E, CHR 0x1F, CHR '' '', CHR 0x85, CHR 0xA0]"
    by code_simp
  have m: "c \<in> set ([CHR 0x09, CHR 0x0A, CHR 0x0B, CHR 0x0C, CHR 0x0D, CHR 0x1C, CHR 0x1D,
           CHR 0x1E, CHR 0x1F, CHR '' '', CHR 0x85, CHR 0xA0])"
    using assms unfolding is_space_def .
  from la m have "\<not> is_digit c \<and> \<not> is_unit_char c \<and> c \<noteq> CHR ''.'' \<and> c \<noteq> CHR '',''"
    unfolding list_all_iff by (rule bspec)
  then show "\<not> is_digit c" "\<not> is_unit_char c" "c \<noteq> CHR ''.''" "c \<noteq> CHR '',''"
    by simp_all
qed

lemma class_unit:
  assumes "is_unit_char c"
  shows "\<not> is_digit c" "\<not> is_space c" "c \<noteq> CHR ''.''" "c \<noteq> CHR '',''"
proof -
  have la: "list_all (\<lambda>c. \<not> is_digit c \<and> \<not> is_space c \<and> c \<noteq> CHR ''.'' \<and> c \<noteq> CHR '','')
          (''ABCDEFGHIJKLMNOPQRSTUVWXYZabcdefghijklmnopqrstuvwxyz''
             @ [CHR 0xB5, CHR 0xB0, CHR ''%''])"
    by code_simp
  have m: "c \<in> set ((''ABCDEFGHIJKLMNOPQRSTUVWXYZabcdefghijklmnopqrstuvwxyz''
             @ [CHR 0xB5, CHR 0xB0, CHR ''%'']))"
    using assms unfolding is_unit_char_def .
  from la m have "\<not> is_digit c \<and> \<not> is_space c \<and> c \<noteq> CHR ''.'' \<and> c \<noteq> CHR '',''"
    unfolding list_all_iff by (rule bspec)
  then show "\<not> is_digit c" "\<not> is_space c" "c \<noteq> CHR ''.''" "c \<noteq> CHR '',''"
    by simp_all
qed

lemma match_pattern_sound:
  assumes "match_pattern s = Some (g, u)"
  shows "regex_groups s g u"
proof -
  define r0 where "r0 = dropWhile is_space s"
  define d1 where "d1 = takeWhile is_digit r0"
  define r1 where "r1 = dropWhile is_digit r0"
  define sep where "sep = (case r1 of [] \<Rightarrow> []
     | c # r \<Rightarrow> if c = CHR ''.'' \<or> c = CHR '','' then [c] else [])"
  define r2 where "r2 = drop (length sep) r1"
  define d2 where "d2 = takeWhile is_digit r2"
  define r3 where "r3 = dropWhile is_digit r2"
  define r4 where "r4 = dropWhile is_space r3"
  define u' where "u' = takeWhile is_unit_char r4"
  define r5 where "r5 = dropWhile is_unit_char r4"
  have m: "match_pattern s =
      (if d1 \<noteq> [] \<and> u' \<noteq> [] \<and> list_all is_space r5 then Some (d1 @ sep @ d2, u') else None)"
    by (simp add: match_pattern_def Let_def r0_def d1_def r1_def sep_def r2_def d2_def r3_def
        r4_def u'_def r5_def)
  from assms m have c: "d1 \<noteq> []" "u' \<noteq> []" "list_all is_space r5"
    and g: "g = d1 @ sep @ d2" and u: "u = u'"
    by (auto split: if_splits)
  have sepr: "r1 = sep @ r2"
    by (cases r1) (auto simp add: sep_def r2_def)
  have "s = takeWhile is_space s @ r0" by (simp add: r0_def)
  also have "r0 = d1 @ r1" by (simp add: d1_def r1_def)
  also have "r1 = sep @ r2" by (rule sepr)
  also have "r2 = d2 @ r3" by (simp add: d2_def r3_def)
  also have "r3 = takeWhile is_space r3 @ r4" by (simp add: r4_def)
  also have "r4 = u' @ r5" by (simp add: u'_def r5_def)
  finally have s: "s = takeWhile is_space s @ d1 @ sep @ d2 @ takeWhile is_space r3 @ u' @ r5" .
  have lists: "list_all is_space (takeWhile is_space s)" "list_all is_digit d1"
    "list_all is_digit d2" "list_all is_space (takeWhile is_space r3)" "list_all is_unit_char u'"
    by (auto simp add: list_all_iff d1_def d2_def u'_def dest: set_takeWhileD)
  have sp: "sep = [] \<or> sep = ''.'' \<or> sep = '',''"
    by (cases r1) (auto simp add: sep_def)
  show ?thesis
    unfolding regex_groups_def u
    using s g c lists sp by blast
qed

lemma match_pattern_complete:
  assumes "regex_groups s g u"
  shows "match_pattern s = Some (g, u)"
proof -
  from assms obtain sp1 d1 sep d2 sp2 sp3 where
    s: "s = sp1 @ d1 @ sep @ d2 @ sp2 @ u @ sp3" and g: "g = d1 @ sep @ d2"
    and sp1: "list_all is_space sp1" and d1n: "d1 \<noteq> []" and d1: "list_all is_digit d1"
    and sep: "sep = [] \<or> sep = ''.'' \<or> sep = '',''" and d2: "list_all is_digit d2"
    and sp2: "list_all is_space sp2" and un: "u \<noteq> []" and uu: "list_all is_unit_char u"
    and sp3: "list_all is_space sp3"
    unfolding regex_groups_def by blast
  have hd_d1: "is_digit (hd d1)" using d1 d1n by (cases d1) simp_all
  have hd_u: "is_unit_char (hd u)" using uu un by (cases u) simp_all
  let ?tail = "sp2 @ u @ sp3"
  have tail_ne: "?tail \<noteq> []" using un by simp
  have hd_tail: "is_space (hd ?tail) \<or> is_unit_char (hd ?tail)"
    using sp2 hd_u un by (cases sp2) simp_all
  have nd_tail: "\<not> is_digit (hd ?tail)" "hd ?tail \<noteq> CHR ''.''" "hd ?tail \<noteq> CHR '',''"
    using hd_tail class_space class_unit by blast+
  \<comment> \<open>leading whitespace\<close>
  have r0: "dropWhile is_space s = d1 @ sep @ d2 @ ?tail"
    unfolding s using sp1 d1n hd_d1 class_digit(1)
    by (intro span_app(2)) (auto simp add: hd_append)
  \<comment> \<open>the numeral\<close>
  have num: "\<exists>e1 e2 sp. e1 @ sp @ e2 = d1 @ sep @ d2 \<and> e1 \<noteq> [] \<and>
      takeWhile is_digit (d1 @ sep @ d2 @ ?tail) = e1 \<and>
      dropWhile is_digit (d1 @ sep @ d2 @ ?tail) = sp @ e2 @ ?tail \<and>
      (case sp @ e2 @ ?tail of [] \<Rightarrow> [] | c # r \<Rightarrow> if c = CHR ''.'' \<or> c = CHR '','' then [c] else [])
        = sp \<and>
      takeWhile is_digit (e2 @ ?tail) = e2 \<and> dropWhile is_digit (e2 @ ?tail) = ?tail"
  proof (cases "sep = []")
    case True
    have a: "list_all is_digit (d1 @ d2)" using d1 d2 by simp
    have t: "takeWhile is_digit ((d1 @ d2) @ ?tail) = d1 @ d2"
      "dropWhile is_digit ((d1 @ d2) @ ?tail) = ?tail"
      using a nd_tail(1) by (intro span_app; simp)+
    have c: "(case ?tail of [] \<Rightarrow> [] | c # r \<Rightarrow> if c = CHR ''.'' \<or> c = CHR '','' then [c] else [])
        = []"
      using tail_ne nd_tail(2,3) by (cases ?tail) auto
    have e: "takeWhile is_digit ([] @ ?tail) = []" "dropWhile is_digit ([] @ ?tail) = ?tail"
      using nd_tail(1) by (intro span_app; simp)+
    show ?thesis
      apply (rule exI [of _ "d1 @ d2"], rule exI [of _ "[]"], rule exI [of _ "[]"])
      using True d1n t c e by simp
  next
    case False
    then obtain c where c: "sep = [c]" "c = CHR ''.'' \<or> c = CHR '',''" using sep by auto
    then have nc: "\<not> is_digit c" using class_digit(3,4) by blast
    have t: "takeWhile is_digit (d1 @ (sep @ d2 @ ?tail)) = d1"
      "dropWhile is_digit (d1 @ (sep @ d2 @ ?tail)) = sep @ d2 @ ?tail"
      using d1 nc c(1) by (intro span_app; simp)+
    have e: "takeWhile is_digit (d2 @ ?tail) = d2" "dropWhile is_digit (d2 @ ?tail) = ?tail"
      using d2 nd_tail(1) by (intro span_app; simp)+
    show ?thesis
      apply (rule exI [of _ d1], rule exI [of _ d2], rule exI [of _ sep])
      using d1n t e c by auto
  qed
  then obtain e1 e2 sp where n: "e1 @ sp @ e2 = d1 @ sep @ d2" "e1 \<noteq> []"
    "takeWhile is_digit (d1 @ sep @ d2 @ ?tail) = e1"
    "dropWhile is_digit (d1 @ sep @ d2 @ ?tail) = sp @ e2 @ ?tail"
    "(case sp @ e2 @ ?tail of [] \<Rightarrow> [] | c # r \<Rightarrow> if c = CHR ''.'' \<or> c = CHR '','' then [c] else [])
        = sp"
    "takeWhile is_digit (e2 @ ?tail) = e2" "dropWhile is_digit (e2 @ ?tail) = ?tail"
    by blast
  \<comment> \<open>the unit\<close>
  have r4: "dropWhile is_space (sp2 @ (u @ sp3)) = u @ sp3"
    using sp2 un hd_u class_unit(2) by (intro span_app(2)) (auto simp add: hd_append)
  have hd_sp3: "sp3 = [] \<or> \<not> is_unit_char (hd sp3)"
    using sp3 class_space(2) by (cases sp3) auto
  have ut: "takeWhile is_unit_char (u @ sp3) = u" "dropWhile is_unit_char (u @ sp3) = sp3"
    using uu hd_sp3 by (intro span_app; simp)+
  show ?thesis
    using n r4 ut un sp3 g
    by (simp add: match_pattern_def Let_def r0)
qed

lemma match_pattern_regex: "match_pattern s = Some (g, u) \<longleftrightarrow> regex_groups s g u"
  using match_pattern_sound match_pattern_complete by blast

text \<open>
  Where no column of the table already bears the name \<open>c_value\<close> or \<open>c_unit\<close> of a text
  column \<open>c\<close> that has a matching cell, the extractor returns the columns in their order
  with every such column replaced, where it stood, by \<open>c_value\<close> and \<open>c_unit\<close>: a matching
  cell gives the magnitude, comma turned into point and parsed as a number, and the unit
  token; a cell that does not match, a missing cell among them, gives NaN in both. A text
  column without a matching cell and a column that is not text pass through unchanged. A
  cell matches when its string is in the language of the pattern, and the groups are then
  unique.
\<close>

lemma extractor_splits:
  assumes "distinct (map cname df)" and "no_clash L df"
  shows "extract_numeric_and_unit L df = concat (map (extract_column L) df)
       \<and> promoted L c = (cdtype c = Object \<and> (\<exists>x\<in>set (cells c). match_pattern (py_str L x) \<noteq> None))
       \<and> (\<not> promoted L c \<longrightarrow> extract_column L c = [c])
       \<and> (promoted L c \<longrightarrow> extract_column L c =
            [\<lparr>cname = cname c @ ''_value'', cdtype = Float64,
              cells = map (\<lambda>x. value_cell L (match_pattern (py_str L x))) (cells c)\<rparr>,
             \<lparr>cname = cname c @ ''_unit'', cdtype = Object,
              cells = map (\<lambda>x. unit_cell (match_pattern (py_str L x))) (cells c)\<rparr>])
       \<and> value_cell L (Some (n, u)) = num_coerce L (Str (py_replace_char (CHR '','') ''.'' n))
       \<and> unit_cell (Some (n, u)) = Str u
       \<and> value_cell L None = Flt NaN \<and> unit_cell None = Flt NaN
       \<and> (isna x \<longrightarrow> match_pattern (py_str L x) = None)
       \<and> (match_pattern s = Some (g, t)) = regex_groups s g t
       \<and> match_pattern ''12.5 mm'' = Some (''12.5'', ''mm'')"
  using assms extract_cell_missing [of x L] match_pattern_regex [of s g t]
  by (simp add: extract_numeric_and_unit_columns promoted_def extract_column_def
      extract_cell_def value_cell_def unit_cell_def list_ex_iff match_examples)

lemma split_table_facts:
  "distinct (map cname split_table)" "no_clash ref_lib split_table"
  by (simp_all add: split_table_def no_clash_def has_col_def)

lemma extractor_splits_example:
  "distinct (map cname split_table) \<and> no_clash ref_lib split_table
   \<and> extract_numeric_and_unit ref_lib split_table
       = [\<lparr>cname = ''a_value'', cdtype = Float64,
            cells = [Flt (Fin (dbl 12.5)), Flt NaN, Flt (Fin (dbl 3.5))]\<rparr>,
          \<lparr>cname = ''a_unit'', cdtype = Object, cells = [Str ''mm'', Flt NaN, Str ''kg'']\<rparr>,
          \<lparr>cname = ''b'', cdtype = Object, cells = [Str ''x'', Str ''y'', Str ''12'']\<rparr>,
          \<lparr>cname = ''n'', cdtype = Float64,
            cells = [Flt (Fin (dbl 1)), Flt (Fin (dbl 2)), Flt NaN]\<rparr>]"
proof -
  have "extract_numeric_and_unit ref_lib split_table
      = concat (map (extract_column ref_lib) split_table)"
    using extractor_splits [OF split_table_facts] by simp
  then show ?thesis
    by (simp add: split_table_facts)
      (simp add: split_table_def extract_column_def promoted_def extract_cell_def match_examples
        value_cell_def unit_cell_def comma_examples num_coerce_def ref_lib_def
        parse_decimal_examples parse_more)
qed

text \<open>
  C5. The code breaks the claim where a name collides. The table has the text column \<open>a\<close>
  with the cell \<open>1.5 mm\<close> and the text column \<open>a_value\<close> with the cell \<open>x\<close>, which
  matches nothing. The claim has \<open>a\<close> replaced by \<open>a_value\<close> and \<open>a_unit\<close> and the column
  \<open>a_value\<close> of the input passed through unchanged. The code assigns the magnitudes of \<open>a\<close>
  to the name \<open>a_value\<close>, which writes them over the column of the input; that column is
  then no text column any more, so its name is kept in the order, and the result holds
  the magnitudes twice under one name and the cell \<open>x\<close> nowhere.
\<close>

theorem extractor_overwrites_column:
  "wf_table clash_table
   \<and> clash_table = [\<lparr>cname = ''a'', cdtype = Object, cells = [Str ''1.5 mm'']\<rparr>,
                    \<lparr>cname = ''a_value'', cdtype = Object, cells = [Str ''x'']\<rparr>]
   \<and> match_pattern ''1.5 mm'' = Some (''1.5'', ''mm'') \<and> match_pattern ''x'' = None
   \<and> \<not> promoted ref_lib (clash_table ! 1)
   \<and> clash_table ! 1 \<notin> set (extract_numeric_and_unit ref_lib clash_table)
   \<and> \<not> distinct (map cname (extract_numeric_and_unit ref_lib clash_table))
   \<and> extract_numeric_and_unit ref_lib clash_table
       = [\<lparr>cname = ''a_value'', cdtype = Float64, cells = [Flt (Fin (dbl 1.5))]\<rparr>,
          \<lparr>cname = ''a_unit'', cdtype = Object, cells = [Str ''mm'']\<rparr>,
          \<lparr>cname = ''a_value'', cdtype = Float64, cells = [Flt (Fin (dbl 1.5))]\<rparr>]"
proof -
  have e: "extract_numeric_and_unit ref_lib clash_table
       = [\<lparr>cname = ''a_value'', cdtype = Float64, cells = [Flt (Fin (dbl 1.5))]\<rparr>,
          \<lparr>cname = ''a_unit'', cdtype = Object, cells = [Str ''mm'']\<rparr>,
          \<lparr>cname = ''a_value'', cdtype = Float64, cells = [Flt (Fin (dbl 1.5))]\<rparr>]"
    by (simp add: extract_numeric_and_unit_def clash_table_def extract_step_def Let_def
        col_cells_def col_dtype_def extract_cell_def match_examples assign_col_def has_col_def
        set_col_def value_cell_def unit_cell_def comma_examples num_coerce_def ref_lib_def
        parse_more select_cols_def)
  have w: "wf_table clash_table"
    by (simp add: clash_table_def wf_table_def nrows_def)
  show ?thesis
    unfolding e using w
    by (simp add: clash_table_def promoted_def extract_cell_def match_examples)
qed

section \<open>The stages and the store\<close>

lemma frame_of_refl [simp]: "frame_of h h"
  by (simp add: frame_of_def)

lemma frame_of_new: "frame_of h h1 \<Longrightarrow> frame_of h (h1 @ xs)"
  by (simp add: frame_of_def nth_append)

lemma frame_of_update: "frame_of h h1 \<Longrightarrow> length h \<le> r \<Longrightarrow> frame_of h (h1[r := t])"
  by (simp add: frame_of_def)

lemma fold_mutate:
  assumes "r < length h"
  shows "fold (\<lambda>x h'. df_mutate h' r (f x)) xs h = h[r := fold f xs (h ! r)]"
  using assms
proof (induction xs arbitrary: h)
  case Nil
  then show ?case by simp
next
  case (Cons x xs)
  then show ?case by (simp add: df_mutate_def)
qed

lemma for_cols_st_trace:
  assumes "r < length h"
  shows "for_cols_st body cs h r
           = (h[r := fst (for_cols_trace body cs (h ! r))], snd (for_cols_trace body cs (h ! r)))"
  using assms
proof (induction cs arbitrary: h)
  case Nil
  then show ?case by simp
next
  case (Cons c cs)
  then show ?case by (cases "body c (h ! r)") (simp_all add: df_mutate_def)
qed

lemma for_cols_trace_result:
  "for_cols body cs t = (case snd (for_cols_trace body cs t) of
       None \<Rightarrow> Inr (fst (for_cols_trace body cs t)) | Some e \<Rightarrow> Inl e)"
proof (induction cs arbitrary: t)
  case Nil
  show ?case by simp
next
  case (Cons c cs)
  then show ?case by (cases "body c t") (simp_all split: option.splits)
qed

lemma remove_empty_st:
  assumes "df < length h"
  shows "fresh_result h (remove_empty_rows_and_columns_st h df)
           (remove_empty_rows_and_columns (h ! df))"
  using assms
  by (simp add: fresh_result_def remove_empty_rows_and_columns_st_def df_copy_def df_new_def
      Let_def nth_append remove_empty_rows_and_columns_def frame_of_new)

lemma loop_result_st:
  assumes "df < length h"
  shows "fresh_result_or_error h
     (let (h1, df_clean) = df_copy h df;
          h2 = df_mutate h1 df_clean g;
          (h3, err) = for_cols_st body (map cname (h2 ! df_clean)) h2 df_clean
      in (h3, case err of None \<Rightarrow> Inr df_clean | Some e \<Rightarrow> Inl e))
     (for_cols body (map cname (g (h ! df))) (g (h ! df)))"
proof -
  let ?t = "g (h ! df)"
  let ?tr = "for_cols_trace body (map cname ?t) ?t"
  have st: "for_cols_st body (map cname ?t) (h @ [?t]) (length h) = (h @ [fst ?tr], snd ?tr)"
    using for_cols_st_trace [of "length h" "h @ [?t]" body "map cname ?t"] by simp
  have fr: "frame_of h (h @ [x])" for x :: table
    by (intro frame_of_new) simp
  show ?thesis
    using assms fr
    by (cases "snd ?tr")
      (simp_all add: fresh_result_or_error_def df_copy_def df_new_def df_mutate_def Let_def st
        for_cols_trace_result [of body "map cname ?t" ?t])
qed

lemma strip_whitespace_st_result:
  assumes "df < length h"
  shows "fresh_result_or_error h (strip_whitespace_st L h df) (strip_whitespace L (h ! df))"
  using loop_result_st [OF assms, of strip_names "strip_body L"]
  by (simp add: strip_whitespace_st_def strip_whitespace_def Let_def)

lemma fix_decimal_commas_st_result:
  assumes "df < length h"
  shows "fresh_result_or_error h (fix_decimal_commas_st L h df) (fix_decimal_commas L (h ! df))"
proof -
  have "df_mutate (fst (df_copy h df)) (snd (df_copy h df)) (\<lambda>t. t) = fst (df_copy h df)"
    by (simp add: df_mutate_def df_copy_def df_new_def)
  then show ?thesis
    using loop_result_st [OF assms, of "\<lambda>t. t" "fix_body L"]
    by (simp add: fix_decimal_commas_st_def fix_decimal_commas_def Let_def split_def)
qed

lemma fold_new_st:
  assumes "frame_of h h1" "r < length h1" "length h \<le> r"
  shows "fresh_result h
     (fold (\<lambda>p (h1, df_clean). df_new h1 (f p (h1 ! df_clean))) ps (h1, r))
     (fold f ps (h1 ! r))"
  using assms
proof (induction ps arbitrary: h1 r)
  case Nil
  then show ?case by (simp add: fresh_result_def)
next
  case (Cons p ps)
  have "fresh_result h
     (fold (\<lambda>p (h1, df_clean). df_new h1 (f p (h1 ! df_clean))) ps
        (h1 @ [f p (h1 ! r)], length h1))
     (fold f ps ((h1 @ [f p (h1 ! r)]) ! length h1))"
    using Cons.prems by (intro Cons.IH frame_of_new) (simp_all add: frame_of_def)
  then show ?case by (simp add: df_new_def)
qed

lemma normalize_missing_values_st_result:
  assumes "df < length h"
  shows "fresh_result h (normalize_missing_values_st h df) (normalize_missing_values (h ! df))"
proof -
  have "fresh_result h
     (fold (\<lambda>p (h1, df_clean). df_new h1 (replace_regex p (h1 ! df_clean))) missing_patterns
        (h @ [h ! df], length h))
     (fold replace_regex missing_patterns ((h @ [h ! df]) ! length h))"
    by (intro fold_new_st frame_of_new) simp_all
  then show ?thesis
    by (simp add: normalize_missing_values_st_def normalize_missing_values_def df_copy_def
        df_new_def)
qed

lemma extract_step_st_eq:
  assumes "r < length h"
  shows "extract_step_st L col r (h, order)
           = (h[r := fst (extract_step L col (h ! r, order))],
              snd (extract_step L col (h ! r, order)))"
  using assms by (simp add: extract_step_st_def extract_step_def Let_def df_mutate_def)

lemma fold_extract_st:
  assumes "r < length h"
  shows "fold (\<lambda>col. extract_step_st L col r) cols (h, order)
         = (h[r := fst (fold (extract_step L) cols (h ! r, order))],
            snd (fold (extract_step L) cols (h ! r, order)))"
  using assms
proof (induction cols arbitrary: h order)
  case Nil
  then show ?case by simp
next
  case (Cons c cols)
  then show ?case by (simp add: extract_step_st_eq)
qed

lemma extract_st_result:
  assumes "df < length h"
  shows "fresh_result h (extract_numeric_and_unit_st L h df)
           (extract_numeric_and_unit L (h ! df))"
proof -
  let ?h1 = "h @ [h ! df]"
  have f: "fold (\<lambda>col. extract_step_st L col (length h)) (map cname (h ! df)) (?h1, [])
         = (?h1[length h := fst (fold (extract_step L) (map cname (h ! df)) (h ! df, []))],
            snd (fold (extract_step L) (map cname (h ! df)) (h ! df, [])))"
    using fold_extract_st [of "length h" ?h1 L "map cname (h ! df)" "[]"] by simp
  have p: "extract_numeric_and_unit L (h ! df)
      = select_cols (fst (fold (extract_step L) (map cname (h ! df)) (h ! df, [])))
          (snd (fold (extract_step L) (map cname (h ! df)) (h ! df, [])))"
    by (simp add: extract_numeric_and_unit_def split_def Let_def)
  have fr: "frame_of h (h @ [x, y])" for x y :: table
    by (intro frame_of_new) simp
  show ?thesis
    using fr
    by (simp add: fresh_result_def extract_numeric_and_unit_st_def df_copy_def df_new_def f p
        nth_append)
qed

lemma convert_rows_st_eq:
  assumes "r < length h"
  shows "convert_rows_st L col ucol rows h r = h[r := convert_rows L col ucol rows (h ! r)]"
  using assms
proof (induction rows arbitrary: h)
  case Nil
  then show ?case by simp
next
  case (Cons x rows)
  obtain i v u where x: "x = (i, v, u)" by (cases x)
  obtain nv nu where c: "convert_one L v u = (nv, nu)" by (cases "convert_one L v u")
  show ?case using Cons by (simp add: x c df_mutate_def)
qed

lemma convert_pair_st_eq:
  assumes "r < length h"
  shows "convert_pair_st L col h r = h[r := convert_pair L col (h ! r)]"
  using assms
  by (simp add: convert_pair_st_def convert_pair_def Let_def convert_rows_st_eq df_mutate_def)

lemma fold_convert_pair_st:
  assumes "r < length h"
  shows "fold (\<lambda>col h'. convert_pair_st L col h' r) cols h
           = h[r := fold (convert_pair L) cols (h ! r)]"
  using assms
proof (induction cols arbitrary: h)
  case Nil
  then show ?case by simp
next
  case (Cons c cols)
  then show ?case by (simp add: convert_pair_st_eq)
qed

lemma convert_st_result:
  assumes "df < length h"
  shows "fresh_result h (convert_units_to_SI_st L h df) (convert_units_to_SI L (h ! df))"
proof -
  let ?h1 = "h @ [h ! df]"
  have f: "fold (\<lambda>col h'. convert_pair_st L col h' (length h)) (map cname (h ! df)) ?h1
      = ?h1[length h := fold (convert_pair L) (map cname (h ! df)) (h ! df)]"
    using fold_convert_pair_st [of "length h" ?h1 L "map cname (h ! df)"] by simp
  have fr: "frame_of h (?h1[length h := x])" for x
    by (intro frame_of_update frame_of_new) simp_all
  show ?thesis
    using fr
    by (simp add: fresh_result_def convert_units_to_SI_st_def df_copy_def df_new_def f
        convert_units_to_SI_def Let_def)
qed

text \<open>
  C9. Every stage, run on the address of a frame in a store, leaves every object of that
  store as it was, its argument among them, and returns the address of an object that the
  store did not hold before, whose content is the result of the stage; a stage that raises
  leaves the store's objects untouched as well.
\<close>

theorem stages_keep_input:
  assumes "df < length h"
  shows "fresh_result h (remove_empty_rows_and_columns_st h df)
           (remove_empty_rows_and_columns (h ! df))
       \<and> fresh_result_or_error h (strip_whitespace_st L h df) (strip_whitespace L (h ! df))
       \<and> fresh_result h (normalize_missing_values_st h df) (normalize_missing_values (h ! df))
       \<and> fresh_result_or_error h (fix_decimal_commas_st L h df) (fix_decimal_commas L (h ! df))
       \<and> fresh_result h (extract_numeric_and_unit_st L h df)
           (extract_numeric_and_unit L (h ! df))
       \<and> fresh_result h (convert_units_to_SI_st L h df) (convert_units_to_SI L (h ! df))"
  using assms
  by (simp add: remove_empty_st strip_whitespace_st_result normalize_missing_values_st_result
      fix_decimal_commas_st_result extract_st_result convert_st_result)

lemma fresh_result_input:
  assumes "fresh_result h res t" "a < length h"
  shows "fst res ! a = h ! a" "length h \<le> snd res" "fst res ! snd res = t"
  using assms by (auto simp add: fresh_result_def frame_of_def split: prod.splits)

lemma fresh_result_or_error_input:
  assumes "fresh_result_or_error h res out" "a < length h"
  shows "fst res ! a = h ! a"
  using assms
  by (auto simp add: fresh_result_or_error_def frame_of_def split: prod.splits sum.splits)

theorem stages_keep_input_witness:
  "(0::nat) < length store_example
   \<and> fst (remove_empty_rows_and_columns_st store_example 0) ! 0 = missing_table
   \<and> fst (strip_whitespace_st ref_lib store_example 0) ! 0 = missing_table
   \<and> fst (normalize_missing_values_st store_example 0) ! 0 = missing_table
   \<and> fst (fix_decimal_commas_st ref_lib store_example 0) ! 0 = missing_table
   \<and> fst (extract_numeric_and_unit_st ref_lib store_example 0) ! 0 = missing_table
   \<and> fst (convert_units_to_SI_st ref_lib store_example 0) ! 0 = missing_table
   \<and> 2 \<le> snd (convert_units_to_SI_st ref_lib store_example 0)
   \<and> fst (convert_units_to_SI_st ref_lib store_example 0)
         ! snd (convert_units_to_SI_st ref_lib store_example 0)
       = convert_units_to_SI ref_lib missing_table"
proof -
  have l: "(0::nat) < length store_example" by (simp add: store_example_def)
  note t = stages_keep_input [OF l, of ref_lib]
  have e: "store_example ! 0 = missing_table" "length store_example = 2"
    by (simp_all add: store_example_def)
  from t have t1: "fresh_result store_example (remove_empty_rows_and_columns_st store_example 0)
      (remove_empty_rows_and_columns (store_example ! 0))"
    and t2: "fresh_result_or_error store_example (strip_whitespace_st ref_lib store_example 0)
      (strip_whitespace ref_lib (store_example ! 0))"
    and t3: "fresh_result store_example (normalize_missing_values_st store_example 0)
      (normalize_missing_values (store_example ! 0))"
    and t4: "fresh_result_or_error store_example (fix_decimal_commas_st ref_lib store_example 0)
      (fix_decimal_commas ref_lib (store_example ! 0))"
    and t5: "fresh_result store_example (extract_numeric_and_unit_st ref_lib store_example 0)
      (extract_numeric_and_unit ref_lib (store_example ! 0))"
    and c: "fresh_result store_example (convert_units_to_SI_st ref_lib store_example 0)
      (convert_units_to_SI ref_lib (store_example ! 0))"
    by simp_all
  note 1 = fresh_result_input(1) [OF t1 l]
  note 2 = fresh_result_or_error_input [OF t2 l]
  note 3 = fresh_result_input(1) [OF t3 l]
  note 4 = fresh_result_or_error_input [OF t4 l]
  note 5 = fresh_result_input(1) [OF t5 l]
  show ?thesis
    using l 1 2 3 4 5 fresh_result_input [OF c l] by (simp add: e)
qed

end
